theory Spec2Isabelle
  imports Main "HOL-Library.Word"
begin

section \<open>Native memory\<close>

text \<open>
  The binding layer of \<^verbatim>\<open>cpp/src/bindings.cpp\<close> builds and destroys C structures by
  hand. The model keeps an explicit store: every \<^verbatim>\<open>new\<close>, \<^verbatim>\<open>new[]\<close> and \<^verbatim>\<open>strdup\<close>
  appends one block, every \<^verbatim>\<open>delete\<close> and \<^verbatim>\<open>delete[]\<close> empties the block and is
  written to a log, in the order the program performs them. Address 0 is the null
  pointer; address \<open>a > 0\<close> is cell \<open>a - 1\<close>. Addresses are never handed out twice, and
  memory is unbounded, so \<^verbatim>\<open>std::bad_alloc\<close> is not represented.
\<close>

type_synonym addr = nat
type_synonym double = "64 word"
type_synonym int32 = "32 word"

text \<open>The structures of the C interface, with the fields the bindings use.\<close>

record array =
  length_a :: int
  ptr :: addr

text \<open>
  \<open>data\<close> is \<open>None\<close> while the field is indeterminate: \<^verbatim>\<open>new series[n]\<close> leaves it
  unwritten, and \<^verbatim>\<open>createDataframe\<close> writes it only for the type tags it knows.
\<close>

record series =
  name :: addr
  index :: int
  type :: int
  data :: "array option"

record dataframe =
  series :: addr
  series_count :: int

record dataframe_array =
  dataframes :: addr
  dataframes_count :: int

record load_flow_parameters =
  voltage_init_mode :: int
  transformer_voltage_control_on :: int
  no_generator_reactive_limits :: int
  phase_shifter_regulation_on :: int
  twt_split_shunt_admittance :: int
  simul_shunt :: int
  read_slack_bus :: int
  write_slack_bus :: int
  distributed_slack :: int
  balance_type :: int
  dc_use_transformer_ratio :: int
  countries_to_balance :: addr
  countries_to_balance_count :: int
  connected_component_mode :: int

text \<open>
  The three ways the program obtains storage: \<^verbatim>\<open>malloc\<close> (behind \<^verbatim>\<open>strdup\<close>),
  \<^verbatim>\<open>new T()\<close> and \<^verbatim>\<open>new T[n]\<close>. Storage must go back the way it came: \<^verbatim>\<open>delete\<close> on
  what \<^verbatim>\<open>new\<close> gave, \<^verbatim>\<open>delete[]\<close> on what \<^verbatim>\<open>new[]\<close> gave; anything else is undefined
  behaviour.
\<close>

datatype allocator = Malloc | New | NewArray

text \<open>
  Each kind of block is obtained in one way only, so the kind records the allocator:
  \<open>MallocChars\<close> is a character array from \<^verbatim>\<open>strdup\<close>, \<open>CharArr\<close> one from
  \<^verbatim>\<open>new char[n]\<close>; the three structures are single objects from \<^verbatim>\<open>new T()\<close>; every
  other block is an array from \<^verbatim>\<open>new T[n]\<close>, \<open>Uninit\<close> being such an array before it
  is written.
\<close>

datatype block =
    Uninit
  | MallocChars string
  | CharArr string
  | PtrArr "addr list"
  | DoubleArr "double list"
  | IntArr "int32 list"
  | SeriesArr "series list"
  | DataframeObj dataframe
  | DataframeArr "dataframe list"
  | DataframeArrayObj dataframe_array
  | LoadFlowParametersObj load_flow_parameters

record heap =
  cells :: "block option list"
  freed :: "addr list"

text \<open>
  \<open>PyPowsyblError\<close> is the exception of the bindings; \<open>cast_error\<close> and \<open>index_error\<close>
  are what pybind11 raises when a Python object does not convert or a list index is
  out of range; \<open>MemoryFault\<close> stands for undefined behaviour of the C++ (reading or
  releasing storage that is not live, reading past the end of an array).
\<close>

datatype error = PyPowsyblError string | cast_error | index_error | MemoryFault

fun allocator_of :: "block \<Rightarrow> allocator" where
  "allocator_of (MallocChars s) = Malloc"
| "allocator_of (DataframeObj d) = New"
| "allocator_of (DataframeArrayObj a) = New"
| "allocator_of (LoadFlowParametersObj p) = New"
| "allocator_of b = NewArray"

definition and_then :: "error + 'a \<Rightarrow> ('a \<Rightarrow> error + 'b) \<Rightarrow> error + 'b" where
  "and_then r f = (case r of Inl e \<Rightarrow> Inl e | Inr x \<Rightarrow> f x)"

definition empty_heap :: heap where
  "empty_heap = \<lparr>cells = [], freed = []\<rparr>"

definition lookup :: "heap \<Rightarrow> addr \<Rightarrow> block option" where
  "lookup h a = (if a = 0 \<or> length (cells h) < a then None else cells h ! (a - 1))"

text \<open>An allocation, of the form the kind of the block stands for.\<close>

definition alloc :: "heap \<Rightarrow> block \<Rightarrow> heap \<times> addr" where
  "alloc h b = (h\<lparr>cells := cells h @ [Some b]\<rparr>, Suc (length (cells h)))"

text \<open>
  A release that expects storage from the allocator \<open>al\<close>. Nothing happens on the
  null pointer. Releasing storage that is not live, or that another allocator gave,
  is undefined behaviour.
\<close>

definition release :: "allocator \<Rightarrow> heap \<Rightarrow> addr \<Rightarrow> error + heap" where
  "release al h a =
     (if a = 0 then Inr h
      else case lookup h a of
        None \<Rightarrow> Inl MemoryFault
      | Some b \<Rightarrow>
          if allocator_of b = al
          then Inr (h\<lparr>cells := (cells h)[a - 1 := None], freed := freed h @ [a]\<rparr>)
          else Inl MemoryFault)"

text \<open>\<^verbatim>\<open>delete p\<close> and \<^verbatim>\<open>delete[] p\<close>.\<close>

definition delete :: "heap \<Rightarrow> addr \<Rightarrow> error + heap" where
  "delete h a = release New h a"

definition delete_array :: "heap \<Rightarrow> addr \<Rightarrow> error + heap" where
  "delete_array h a = release NewArray h a"

text \<open>
  A write through a pointer to live storage. The program only ever writes a block
  of the kind the storage was allocated for.
\<close>

definition store :: "heap \<Rightarrow> addr \<Rightarrow> block \<Rightarrow> error + heap" where
  "store h a b =
     (case lookup h a of
        None \<Rightarrow> Inl MemoryFault
      | Some old \<Rightarrow> Inr (h\<lparr>cells := (cells h)[a - 1 := Some b]\<rparr>))"

text \<open>\<^verbatim>\<open>delete[]\<close> on each pointer of a list, in order.\<close>

fun delete_each :: "heap \<Rightarrow> addr list \<Rightarrow> error + heap" where
  "delete_each h [] = Inr h"
| "delete_each h (p # ps) = and_then (delete_array h p) (\<lambda>h1. delete_each h1 ps)"

section \<open>C strings\<close>

definition NUL :: char where
  "NUL = CHR 0x00"

text \<open>What \<^verbatim>\<open>c_str()\<close> followed by a C string read yields: the characters before the first NUL.\<close>

definition c_str :: "string \<Rightarrow> string" where
  "c_str s = takeWhile (\<lambda>c. c \<noteq> NUL) s"

text \<open>
  \<^verbatim>\<open>strdup\<close>: a fresh copy of the C string, terminator included, in storage from
  \<^verbatim>\<open>malloc\<close>.
\<close>

definition strdup :: "heap \<Rightarrow> string \<Rightarrow> heap \<times> addr" where
  "strdup h s = alloc h (MallocChars (c_str s @ [NUL]))"

text \<open>Constructing a \<^verbatim>\<open>std::string\<close> from a \<^verbatim>\<open>char*\<close>.\<close>

definition read_c_string :: "heap \<Rightarrow> addr \<Rightarrow> error + string" where
  "read_c_string h p =
     (case lookup h p of
        Some (CharArr cs) \<Rightarrow> if NUL \<in> set cs then Inr (c_str cs) else Inl MemoryFault
      | Some (MallocChars cs) \<Rightarrow> if NUL \<in> set cs then Inr (c_str cs) else Inl MemoryFault
      | _ \<Rightarrow> Inl MemoryFault)"

fun read_c_strings :: "heap \<Rightarrow> addr list \<Rightarrow> error + string list" where
  "read_c_strings h [] = Inr []"
| "read_c_strings h (p # ps) =
     and_then (read_c_string h p) (\<lambda>s. and_then (read_c_strings h ps) (\<lambda>ss. Inr (s # ss)))"

text \<open>\<^verbatim>\<open>std::vector<std::string>(p, p + n)\<close> over a \<^verbatim>\<open>char**\<close>.\<close>

definition read_strings :: "heap \<Rightarrow> addr \<Rightarrow> int \<Rightarrow> error + string list" where
  "read_strings h p n =
     (if n = 0 then Inr []
      else if n < 0 then Inl MemoryFault
      else case lookup h p of
        Some (PtrArr ps) \<Rightarrow>
          if nat n \<le> length ps then read_c_strings h (take (nat n) ps) else Inl MemoryFault
      | _ \<Rightarrow> Inl MemoryFault)"

section \<open>Helpers of the \<^verbatim>\<open>pypowsybl\<close> namespace\<close>

text \<open>
  Modelled from the spec: \<^verbatim>\<open>pypowsybl::copyVectorStringToCharPtrPtr\<close> is declared in
  \<^verbatim>\<open>pypowsybl.h\<close>, which is not part of the sources at hand. Section 4.1: for each
  input string, allocate an owned null-terminated copy; assemble an array of these
  pointers.
\<close>

fun copy_strings :: "heap \<Rightarrow> string list \<Rightarrow> heap \<times> addr list" where
  "copy_strings h [] = (h, [])"
| "copy_strings h (s # ss) =
     (let (h1, p) = alloc h (CharArr (s @ [NUL]));
          (h2, ps) = copy_strings h1 ss
      in (h2, p # ps))"

definition copyVectorStringToCharPtrPtr :: "heap \<Rightarrow> string list \<Rightarrow> heap \<times> addr" where
  "copyVectorStringToCharPtrPtr h strings =
     (let (h1, ps) = copy_strings h strings in alloc h1 (PtrArr ps))"

text \<open>
  Modelled from the spec: \<^verbatim>\<open>pypowsybl::copyVectorDouble\<close> and \<^verbatim>\<open>pypowsybl::copyVectorInt\<close>
  (not part of the sources at hand). Section 4.1: allocate a flat array of the
  primitive type; copy values verbatim.
\<close>

definition copyVectorDouble :: "heap \<Rightarrow> double list \<Rightarrow> heap \<times> addr" where
  "copyVectorDouble h doubles = alloc h (DoubleArr doubles)"

definition copyVectorInt :: "heap \<Rightarrow> int32 list \<Rightarrow> heap \<times> addr" where
  "copyVectorInt h ints = alloc h (IntArr ints)"

text \<open>
  Modelled from the spec: \<^verbatim>\<open>pypowsybl::deleteCharPtrPtr\<close> (not part of the sources at
  hand). Section 4.4: free every individual string, then the pointer array.
\<close>

definition deleteCharPtrPtr :: "heap \<Rightarrow> addr \<Rightarrow> int \<Rightarrow> error + heap" where
  "deleteCharPtrPtr h charPtrPtr n =
     (if n \<le> 0 then delete_array h charPtrPtr
      else case lookup h charPtrPtr of
        Some (PtrArr ps) \<Rightarrow>
          if nat n \<le> length ps
          then and_then (delete_each h (take (nat n) ps)) (\<lambda>h1. delete_array h1 charPtrPtr)
          else Inl MemoryFault
      | _ \<Rightarrow> Inl MemoryFault)"

text \<open>
  Modelled from the spec: \<^verbatim>\<open>pypowsybl::toVector<std::string>\<close> (not part of the sources
  at hand). Section 4.3: the consumer receives a freshly materialized sequence of
  copied strings.
\<close>

definition toVector_string :: "heap \<Rightarrow> array \<Rightarrow> error + string list" where
  "toVector_string h a = read_strings h (ptr a) (length_a a)"

section \<open>Destroying a dataframe\<close>

text \<open>The body of the loop of \<^verbatim>\<open>deleteDataframe\<close>, for one column.\<close>

definition delete_column :: "heap \<Rightarrow> series \<Rightarrow> error + heap" where
  "delete_column h column =
     and_then
       (if type column = 0 then
          (case data column of
             None \<Rightarrow> Inl MemoryFault
           | Some d \<Rightarrow> deleteCharPtrPtr h (ptr d) (length_a d))
        else if type column = 1 then
          (case data column of None \<Rightarrow> Inl MemoryFault | Some d \<Rightarrow> delete_array h (ptr d))
        else if type column = 2 \<or> type column = 3 then
          (case data column of None \<Rightarrow> Inl MemoryFault | Some d \<Rightarrow> delete_array h (ptr d))
        else Inr h)
       (\<lambda>h1. delete_array h1 (name column))"

fun delete_columns :: "heap \<Rightarrow> series list \<Rightarrow> error + heap" where
  "delete_columns h [] = Inr h"
| "delete_columns h (column # columns) =
     and_then (delete_column h column) (\<lambda>h1. delete_columns h1 columns)"

text \<open>
  The columns the loop visits: \<open>df->series + indice\<close> for \<open>indice < df->series_count\<close>.
  The loop body releases blocks and writes none, so the header and the column array
  are read once.
\<close>

definition columns_of :: "heap \<Rightarrow> dataframe \<Rightarrow> error + series list" where
  "columns_of h df =
     (if series_count df \<le> 0 then Inr []
      else case lookup h (series df) of
        Some (SeriesArr columns) \<Rightarrow>
          if nat (series_count df) \<le> length columns
          then Inr (take (nat (series_count df)) columns)
          else Inl MemoryFault
      | _ \<Rightarrow> Inl MemoryFault)"

definition deleteDataframe :: "heap \<Rightarrow> addr \<Rightarrow> error + heap" where
  "deleteDataframe h df =
     (case lookup h df of
        Some (DataframeObj d) \<Rightarrow>
          and_then (columns_of h d) (\<lambda>columns.
          and_then (delete_columns h columns) (\<lambda>h1.
          and_then (delete_array h1 (series d)) (\<lambda>h2.
          delete h2 df)))
      | _ \<Rightarrow> Inl MemoryFault)"

section \<open>Building a dataframe\<close>

text \<open>
  A Python list handed in for one column is represented by what pybind11's three
  casts make of it; \<open>None\<close> is a cast that raises.
\<close>

record py_list =
  as_vector_string :: "string list option"
  as_vector_double :: "double list option"
  as_vector_int :: "int32 list option"

text \<open>The part of the loop body of \<^verbatim>\<open>createDataframe\<close> that fills \<open>column->data\<close>.\<close>

definition column_data :: "heap \<Rightarrow> py_list list \<Rightarrow> nat \<Rightarrow> int \<Rightarrow> error + (heap \<times> array option)" where
  "column_data h columnsValues indice t =
     (if t = 0 then
        (if length columnsValues \<le> indice then Inl index_error
         else case as_vector_string (columnsValues ! indice) of
           None \<Rightarrow> Inl cast_error
         | Some values \<Rightarrow>
             (let (h1, p) = copyVectorStringToCharPtrPtr h values
              in Inr (h1, Some \<lparr>length_a = int (length values), ptr = p\<rparr>)))
      else if t = 1 then
        (if length columnsValues \<le> indice then Inl index_error
         else case as_vector_double (columnsValues ! indice) of
           None \<Rightarrow> Inl cast_error
         | Some values \<Rightarrow>
             (let (h1, p) = copyVectorDouble h values
              in Inr (h1, Some \<lparr>length_a = int (length values), ptr = p\<rparr>)))
      else if t = 2 \<or> t = 3 then
        (if length columnsValues \<le> indice then Inl index_error
         else case as_vector_int (columnsValues ! indice) of
           None \<Rightarrow> Inl cast_error
         | Some values \<Rightarrow>
             (let (h1, p) = copyVectorInt h values
              in Inr (h1, Some \<lparr>length_a = int (length values), ptr = p\<rparr>)))
      else Inr (h, None))"

text \<open>
  One iteration: the name is copied first, then \<open>isIndex[indice]\<close> and
  \<open>columnsTypes[indice]\<close> are read (reading a vector out of range is undefined
  behaviour), then the data are built. The name goes from \<^verbatim>\<open>std::string\<close> to
  \<^verbatim>\<open>py::str\<close> and back before \<^verbatim>\<open>strdup\<close>, which changes nothing on the UTF-8
  strings pybind11 hands in; \<^verbatim>\<open>strdup\<close> reads it as a C string.
\<close>

definition create_column ::
  "heap \<Rightarrow> py_list list \<Rightarrow> string \<Rightarrow> int list \<Rightarrow> bool list \<Rightarrow> nat \<Rightarrow> error + (heap \<times> series)" where
  "create_column h columnsValues columnName columnsTypes isIndex indice =
     (let (h1, nm) = strdup h columnName in
      if length isIndex \<le> indice \<or> length columnsTypes \<le> indice then Inl MemoryFault
      else
        and_then (column_data h1 columnsValues indice (columnsTypes ! indice)) (\<lambda>(h2, d).
          Inr (h2, \<lparr>name = nm, index = (if isIndex ! indice then 1 else 0),
                    type = columnsTypes ! indice, data = d\<rparr>)))"

text \<open>The loop, from \<open>indice\<close> on; \<open>names\<close> are the column names not yet visited.\<close>

fun create_columns ::
  "heap \<Rightarrow> py_list list \<Rightarrow> string list \<Rightarrow> int list \<Rightarrow> bool list \<Rightarrow> nat \<Rightarrow> error + (heap \<times> series list)" where
  "create_columns h columnsValues [] columnsTypes isIndex indice = Inr (h, [])"
| "create_columns h columnsValues (nm # names) columnsTypes isIndex indice =
     and_then (create_column h columnsValues nm columnsTypes isIndex indice) (\<lambda>(h1, column).
     and_then (create_columns h1 columnsValues names columnsTypes isIndex (Suc indice)) (\<lambda>(h2, columns).
       Inr (h2, column # columns)))"

text \<open>
  \<^verbatim>\<open>createDataframe\<close>. The header is allocated first and zero-initialised, then the
  column array; the loop fills the array, which nothing reads before the loop has
  ended, so the model writes it in one store. The result is the address the shared
  pointer holds; its deleter is \<open>deleteDataframe\<close>. When an exception escapes, what is
  left allocated is not represented.
\<close>

definition createDataframe ::
  "heap \<Rightarrow> py_list list \<Rightarrow> string list \<Rightarrow> int list \<Rightarrow> bool list \<Rightarrow> error + (heap \<times> addr)" where
  "createDataframe h columnsValues columnsNames columnsTypes isIndex =
     (let columnsNumber = length columnsNames;
          (h1, df) = alloc h (DataframeObj \<lparr>series = 0, series_count = 0\<rparr>);
          (h2, columns) = alloc h1 Uninit
      in and_then (create_columns h2 columnsValues columnsNames columnsTypes isIndex 0) (\<lambda>(h3, cols).
         and_then (store h3 columns (SeriesArr cols)) (\<lambda>h4.
         and_then (store h4 df (DataframeObj \<lparr>series = columns, series_count = int columnsNumber\<rparr>)) (\<lambda>h5.
           Inr (h5, df)))))"

section \<open>Building an array of dataframes\<close>

fun read_dataframes :: "heap \<Rightarrow> addr list \<Rightarrow> error + dataframe list" where
  "read_dataframes h [] = Inr []"
| "read_dataframes h (p # ps) =
     (case lookup h p of
        Some (DataframeObj d) \<Rightarrow> and_then (read_dataframes h ps) (\<lambda>ds. Inr (d # ds))
      | _ \<Rightarrow> Inl MemoryFault)"

text \<open>
  \<^verbatim>\<open>createDataframeArray\<close>: \<open>dataframesFinal[indice] = *dataframes[indice]\<close> copies each
  header by value. The result is the address the shared pointer holds; its deleter
  is \<open>dataframe_array_deleter\<close>.
\<close>

definition createDataframeArray :: "heap \<Rightarrow> addr list \<Rightarrow> error + (heap \<times> addr)" where
  "createDataframeArray h dfs =
     (let (h1, dataframeArray) = alloc h (DataframeArrayObj \<lparr>dataframes = 0, dataframes_count = 0\<rparr>);
          (h2, dataframesFinal) = alloc h1 Uninit
      in and_then (read_dataframes h2 dfs) (\<lambda>headers.
         and_then (store h2 dataframesFinal (DataframeArr headers)) (\<lambda>h3.
         and_then (store h3 dataframeArray
                     (DataframeArrayObj \<lparr>dataframes = dataframesFinal,
                                         dataframes_count = int (length dfs)\<rparr>)) (\<lambda>h4.
           Inr (h4, dataframeArray)))))"

text \<open>The lambda given to the shared pointer in \<^verbatim>\<open>createDataframeArray\<close>.\<close>

definition dataframe_array_deleter :: "heap \<Rightarrow> addr \<Rightarrow> error + heap" where
  "dataframe_array_deleter h dataframeToDestroy =
     (case lookup h dataframeToDestroy of
        Some (DataframeArrayObj a) \<Rightarrow>
          and_then (delete_array h (dataframes a)) (\<lambda>h1. delete h1 dataframeToDestroy)
      | _ \<Rightarrow> Inl MemoryFault)"

section \<open>The data property of a series\<close>

datatype dtype = Float64 | Int32 | Bool8

text \<open>
  A numpy array made by \<^verbatim>\<open>py::array(dtype, length, ptr, base)\<close>: it holds the pointer it
  was given, not a copy of the elements.
\<close>

record ndarray =
  nd_dtype :: dtype
  nd_shape :: int
  nd_ptr :: addr
  nd_base :: series

datatype py_object = PyList "string list" | NdArray ndarray

definition seriesAsNumpyArray :: "dtype \<Rightarrow> series \<Rightarrow> error + py_object" where
  "seriesAsNumpyArray dt s =
     (case data s of
        None \<Rightarrow> Inl MemoryFault
      | Some d \<Rightarrow> Inr (NdArray \<lparr>nd_dtype = dt, nd_shape = length_a d, nd_ptr = ptr d, nd_base = s\<rparr>))"

fun string_of_nat :: "nat \<Rightarrow> string" where
  "string_of_nat n =
     (if n < 10 then [''0123456789'' ! n]
      else string_of_nat (n div 10) @ [''0123456789'' ! (n mod 10)])"

definition to_string :: "int \<Rightarrow> string" where
  "to_string i = (if i < 0 then ''-'' @ string_of_nat (nat (- i)) else string_of_nat (nat i))"

definition series_data :: "heap \<Rightarrow> series \<Rightarrow> error + py_object" where
  "series_data h s =
     (if type s = 0 then
        (case data s of
           None \<Rightarrow> Inl MemoryFault
         | Some d \<Rightarrow> and_then (toVector_string h d) (\<lambda>v. Inr (PyList v)))
      else if type s = 1 then seriesAsNumpyArray Float64 s
      else if type s = 2 then seriesAsNumpyArray Int32 s
      else if type s = 3 then seriesAsNumpyArray Bool8 s
      else Inl (PyPowsyblError (''Series type not supported: '' @ to_string (type s))))"

text \<open>
  What the consumer reads through the object it was given, in a store \<open>h\<close>. A list
  of strings holds its own copies. An array reads \<open>nd_shape\<close> elements of its dtype at
  \<open>nd_ptr\<close>: doubles from an array of doubles, ints from an array of ints. With dtype
  \<^verbatim>\<open>bool\<close> an element is one byte, true when the byte is not zero, so over an array of
  4-byte ints the array covers the first \<open>nd_shape\<close> bytes of the storage.
\<close>

datatype endianness = LittleEndian | BigEndian

definition int_bytes :: "endianness \<Rightarrow> int32 \<Rightarrow> 8 word list" where
  "int_bytes e w =
     (let bs = [ucast w, ucast (drop_bit 8 w), ucast (drop_bit 16 w), ucast (drop_bit 24 w)]
      in case e of LittleEndian \<Rightarrow> bs | BigEndian \<Rightarrow> rev bs)"

datatype py_values =
    Strings "string list"
  | Floats "double list"
  | Ints "int32 list"
  | Bools "bool list"

definition contents :: "endianness \<Rightarrow> heap \<Rightarrow> py_object \<Rightarrow> error + py_values" where
  "contents e h obj =
     (case obj of
        PyList v \<Rightarrow> Inr (Strings v)
      | NdArray a \<Rightarrow>
          if nd_shape a < 0 then Inl MemoryFault
          else case nd_dtype a of
            Float64 \<Rightarrow>
              (case lookup h (nd_ptr a) of
                 Some (DoubleArr ds) \<Rightarrow>
                   if nat (nd_shape a) \<le> length ds
                   then Inr (Floats (take (nat (nd_shape a)) ds)) else Inl MemoryFault
               | _ \<Rightarrow> Inl MemoryFault)
          | Int32 \<Rightarrow>
              (case lookup h (nd_ptr a) of
                 Some (IntArr ws) \<Rightarrow>
                   if nat (nd_shape a) \<le> length ws
                   then Inr (Ints (take (nat (nd_shape a)) ws)) else Inl MemoryFault
               | _ \<Rightarrow> Inl MemoryFault)
          | Bool8 \<Rightarrow>
              (case lookup h (nd_ptr a) of
                 Some (IntArr ws) \<Rightarrow>
                   if nat (nd_shape a) \<le> length (concat (map (int_bytes e) ws))
                   then Inr (Bools (map (\<lambda>b. b \<noteq> 0)
                                 (take (nat (nd_shape a)) (concat (map (int_bytes e) ws)))))
                   else Inl MemoryFault
               | _ \<Rightarrow> Inl MemoryFault))"

text \<open>How pybind11 converts a Python list of bools to \<^verbatim>\<open>std::vector<int>\<close>.\<close>

definition bools_as_ints :: "bool list \<Rightarrow> int32 list" where
  "bools_as_ints bs = map (\<lambda>b. if b then 1 else 0) bs"

section \<open>Load flow parameters\<close>

text \<open>
  Modelled from the spec: \<^verbatim>\<open>pypowsybl::createLoadFlowParameters\<close> is not part of the
  sources at hand. Section 4.5: it gives the process-wide default configuration;
  here \<open>config\<close> is the address of that structure in the store.

  \<^verbatim>\<open>initLoadFlowParameters\<close> allocates the new structure first (zero-initialised by
  \<^verbatim>\<open>new load_flow_parameters()\<close>), copies the scalar
  fields one by one and the country list through a vector of strings. The result
  is the address the shared pointer holds; its deleter is
  \<open>load_flow_parameters_deleter\<close>.
\<close>

text \<open>What \<^verbatim>\<open>new load_flow_parameters()\<close> holds before the fields are assigned.\<close>

definition zero_parameters :: load_flow_parameters where
  "zero_parameters =
     \<lparr>voltage_init_mode = 0, transformer_voltage_control_on = 0,
      no_generator_reactive_limits = 0, phase_shifter_regulation_on = 0,
      twt_split_shunt_admittance = 0, simul_shunt = 0, read_slack_bus = 0,
      write_slack_bus = 0, distributed_slack = 0, balance_type = 0,
      dc_use_transformer_ratio = 0, countries_to_balance = 0,
      countries_to_balance_count = 0, connected_component_mode = 0\<rparr>"

definition initLoadFlowParameters :: "heap \<Rightarrow> addr \<Rightarrow> error + (heap \<times> addr)" where
  "initLoadFlowParameters h config =
     (let (h1, parameters) = alloc h (LoadFlowParametersObj zero_parameters) in
      case lookup h1 config of
        Some (LoadFlowParametersObj config_params) \<Rightarrow>
          and_then (read_strings h1 (countries_to_balance config_params)
                      (countries_to_balance_count config_params)) (\<lambda>configCountries.
            let (h2, p) = copyVectorStringToCharPtrPtr h1 configCountries in
            and_then (store h2 parameters (LoadFlowParametersObj
              \<lparr>voltage_init_mode = voltage_init_mode config_params,
               transformer_voltage_control_on = transformer_voltage_control_on config_params,
               no_generator_reactive_limits = no_generator_reactive_limits config_params,
               phase_shifter_regulation_on = phase_shifter_regulation_on config_params,
               twt_split_shunt_admittance = twt_split_shunt_admittance config_params,
               simul_shunt = simul_shunt config_params,
               read_slack_bus = read_slack_bus config_params,
               write_slack_bus = write_slack_bus config_params,
               distributed_slack = distributed_slack config_params,
               balance_type = balance_type config_params,
               dc_use_transformer_ratio = dc_use_transformer_ratio config_params,
               countries_to_balance = p,
               countries_to_balance_count = int (length configCountries),
               connected_component_mode = connected_component_mode config_params\<rparr>))
              (\<lambda>h3. Inr (h3, parameters)))
      | _ \<Rightarrow> Inl MemoryFault)"

definition load_flow_parameters_deleter :: "heap \<Rightarrow> addr \<Rightarrow> error + heap" where
  "load_flow_parameters_deleter h p =
     (case lookup h p of
        Some (LoadFlowParametersObj s) \<Rightarrow>
          and_then (deleteCharPtrPtr h (countries_to_balance s) (countries_to_balance_count s))
            (\<lambda>h1. delete h1 p)
      | _ \<Rightarrow> Inl MemoryFault)"

text \<open>The getter and the setter of the property \<^verbatim>\<open>countries_to_balance\<close>.\<close>

definition get_countries_to_balance :: "heap \<Rightarrow> addr \<Rightarrow> error + string list" where
  "get_countries_to_balance h p =
     (case lookup h p of
        Some (LoadFlowParametersObj s) \<Rightarrow>
          read_strings h (countries_to_balance s) (countries_to_balance_count s)
      | _ \<Rightarrow> Inl MemoryFault)"

definition set_countries_to_balance :: "heap \<Rightarrow> addr \<Rightarrow> string list \<Rightarrow> error + heap" where
  "set_countries_to_balance h p countriesToBalance =
     (case lookup h p of
        Some (LoadFlowParametersObj s) \<Rightarrow>
          and_then (deleteCharPtrPtr h (countries_to_balance s) (countries_to_balance_count s))
            (\<lambda>h1.
              let (h2, q) = copyVectorStringToCharPtrPtr h1 countriesToBalance in
              store h2 p (LoadFlowParametersObj
                (s\<lparr>countries_to_balance := q,
                   countries_to_balance_count := int (length countriesToBalance)\<rparr>)))
      | _ \<Rightarrow> Inl MemoryFault)"

section \<open>Vocabulary of the properties\<close>

text \<open>
  The definitions of this section are not translations of code. They name what the
  properties speak about: which blocks are live, the store after a list of releases
  or allocations, the blocks a table owns, and the concrete inputs at which the
  properties are instantiated.
\<close>

subsection \<open>Stores\<close>

text \<open>
  A block is live when it is allocated and not released; \<open>allocated h al a\<close> says
  that moreover it came from the allocator \<open>al\<close>. \<open>dispose h as\<close> is the
  store after the blocks at \<open>as\<close> were released in that order, \<open>put h a b\<close> the
  store after block \<open>a\<close> was overwritten, \<open>grow h bs\<close> the store after the blocks
  \<open>bs\<close> were allocated in that order, at the addresses \<open>fresh_addrs h (length bs)\<close>.
\<close>

definition live :: "heap \<Rightarrow> addr \<Rightarrow> bool" where
  "live h a \<longleftrightarrow> lookup h a \<noteq> None"

definition allocated :: "heap \<Rightarrow> allocator \<Rightarrow> addr \<Rightarrow> bool" where
  "allocated h al a \<longleftrightarrow> (case lookup h a of None \<Rightarrow> False | Some b \<Rightarrow> allocator_of b = al)"

definition clear :: "addr \<Rightarrow> block option list \<Rightarrow> block option list" where
  "clear a cs = cs[a - 1 := None]"

definition dispose :: "heap \<Rightarrow> addr list \<Rightarrow> heap" where
  "dispose h as = h\<lparr>cells := fold clear as (cells h), freed := freed h @ as\<rparr>"

definition put :: "heap \<Rightarrow> addr \<Rightarrow> block \<Rightarrow> heap" where
  "put h a b = h\<lparr>cells := (cells h)[a - 1 := Some b]\<rparr>"

definition grow :: "heap \<Rightarrow> block option list \<Rightarrow> heap" where
  "grow h bs = h\<lparr>cells := cells h @ bs\<rparr>"

definition fresh_addrs :: "heap \<Rightarrow> nat \<Rightarrow> addr list" where
  "fresh_addrs h k = [Suc (length (cells h)) ..< Suc (length (cells h)) + k]"

text \<open>
  The blocks that hold null-terminated copies of the strings \<open>ss\<close>.
\<close>

definition string_blocks :: "string list \<Rightarrow> block option list" where
  "string_blocks ss = map (\<lambda>s. Some (CharArr (s @ [NUL]))) ss"

subsection \<open>The blocks of a table, in the order of their release\<close>

text \<open>
  Section 4.4 of the specification, in its words: for each column in order, the
  buffer according to the type tag (for strings every individual string, then the
  pointer array; for doubles, ints and bools the flat array), then the name of the
  column; after all columns the column array, then the header of the table. A column
  with any other tag has no buffer to release. The result is \<open>None\<close> when the store
  does not hold a table of that layout at \<open>df\<close>.
\<close>

definition buffer_blocks :: "heap \<Rightarrow> series \<Rightarrow> addr list option" where
  "buffer_blocks h column =
     (if type column = 0 then
        (case data column of
           None \<Rightarrow> None
         | Some d \<Rightarrow>
             (case lookup h (ptr d) of
                Some (PtrArr ps) \<Rightarrow> if length_a d = int (length ps) then Some (ps @ [ptr d]) else None
              | _ \<Rightarrow> None))
      else if type column = 1 \<or> type column = 2 \<or> type column = 3 then
        (case data column of None \<Rightarrow> None | Some d \<Rightarrow> Some [ptr d])
      else Some [])"

definition column_blocks :: "heap \<Rightarrow> series \<Rightarrow> addr list option" where
  "column_blocks h column = map_option (\<lambda>bs. bs @ [name column]) (buffer_blocks h column)"

fun columns_blocks :: "heap \<Rightarrow> series list \<Rightarrow> addr list option" where
  "columns_blocks h [] = Some []"
| "columns_blocks h (column # columns) =
     (case column_blocks h column of
        None \<Rightarrow> None
      | Some bs \<Rightarrow> map_option (\<lambda>cs. bs @ cs) (columns_blocks h columns))"

definition release_order :: "heap \<Rightarrow> addr \<Rightarrow> addr list option" where
  "release_order h df =
     (case lookup h df of
        Some (DataframeObj d) \<Rightarrow>
          (case lookup h (series d) of
             Some (SeriesArr columns) \<Rightarrow>
               if series_count d = int (length columns)
               then map_option (\<lambda>bs. bs @ [series d, df]) (columns_blocks h columns)
               else None
           | _ \<Rightarrow> None)
      | _ \<Rightarrow> None)"

text \<open>
  \<open>matched h p bs\<close>: every block of the list \<open>bs\<close> came from the allocator its
  release expects, the structure at \<open>p\<close> from \<^verbatim>\<open>new\<close> and every other block from
  \<^verbatim>\<open>new[]\<close>.
\<close>

definition matched :: "heap \<Rightarrow> addr \<Rightarrow> addr list \<Rightarrow> bool" where
  "matched h p bs \<longleftrightarrow> list_all (\<lambda>a. allocated h (if a = p then New else NewArray) a) bs"

subsection \<open>The store after an array of tables was built\<close>

definition table_array :: "heap \<Rightarrow> dataframe list \<Rightarrow> heap" where
  "table_array h headers =
     h\<lparr>cells := cells h @
        [Some (DataframeArrayObj \<lparr>dataframes = Suc (Suc (length (cells h))),
                                  dataframes_count = int (length headers)\<rparr>),
         Some (DataframeArr headers)]\<rparr>"

subsection \<open>Columns as \<open>createDataframe\<close> builds them\<close>

text \<open>
  \<open>column_converts\<close>: entry \<open>i\<close> of the index flags and of the type tags exists,
  and, when the tag is one of 0, 1, 2, 3, entry \<open>i\<close> of the values exists and
  converts to the vector type the tag selects. These are the inputs on which the
  loop body of \<open>createDataframe\<close> raises nothing.
\<close>

definition column_converts :: "py_list list \<Rightarrow> int list \<Rightarrow> bool list \<Rightarrow> nat \<Rightarrow> bool" where
  "column_converts columnsValues columnsTypes isIndex i \<longleftrightarrow>
     i < length isIndex \<and> i < length columnsTypes \<and>
     (if columnsTypes ! i = 0 then
        i < length columnsValues \<and> as_vector_string (columnsValues ! i) \<noteq> None
      else if columnsTypes ! i = 1 then
        i < length columnsValues \<and> as_vector_double (columnsValues ! i) \<noteq> None
      else if columnsTypes ! i = 2 \<or> columnsTypes ! i = 3 then
        i < length columnsValues \<and> as_vector_int (columnsValues ! i) \<noteq> None
      else True)"

text \<open>
  \<open>built_column h base c nm t ix pl\<close>: in the store \<open>h\<close> the column \<open>c\<close> is what
  one iteration makes of the name \<open>nm\<close>, the tag \<open>t\<close>, the index flag \<open>ix\<close> and the
  values \<open>pl\<close>, with all its storage at addresses above \<open>base\<close>.
\<close>

fun string_data :: "heap \<Rightarrow> nat \<Rightarrow> array option \<Rightarrow> string list option \<Rightarrow> bool" where
  "string_data h base (Some d) (Some v) =
     (length_a d = int (length v) \<and> base < ptr d \<and>
      (\<exists>ps. lookup h (ptr d) = Some (PtrArr ps) \<and> list_all (\<lambda>p. base < p) ps \<and>
            map (lookup h) ps = string_blocks v))"
| "string_data h base d v = False"

fun flat_data :: "heap \<Rightarrow> nat \<Rightarrow> array option \<Rightarrow> block option \<Rightarrow> nat \<Rightarrow> bool" where
  "flat_data h base (Some d) (Some b) n =
     (length_a d = int n \<and> base < ptr d \<and> lookup h (ptr d) = Some b)"
| "flat_data h base d b n = False"

definition built_data :: "heap \<Rightarrow> nat \<Rightarrow> array option \<Rightarrow> int \<Rightarrow> py_list \<Rightarrow> bool" where
  "built_data h base d t pl =
     (if t = 0 then string_data h base d (as_vector_string pl)
      else if t = 1 then
        flat_data h base d (map_option DoubleArr (as_vector_double pl))
          (case as_vector_double pl of None \<Rightarrow> 0 | Some v \<Rightarrow> length v)
      else if t = 2 \<or> t = 3 then
        flat_data h base d (map_option IntArr (as_vector_int pl))
          (case as_vector_int pl of None \<Rightarrow> 0 | Some v \<Rightarrow> length v)
      else d = None)"

definition built_column ::
  "heap \<Rightarrow> nat \<Rightarrow> series \<Rightarrow> string \<Rightarrow> int \<Rightarrow> bool \<Rightarrow> py_list \<Rightarrow> bool" where
  "built_column h base c nm t ix pl \<longleftrightarrow>
     base < name c \<and> lookup h (name c) = Some (MallocChars (c_str nm @ [NUL])) \<and>
     index c = (if ix then 1 else 0) \<and> type c = t \<and> built_data h base (data c) t pl"

subsection \<open>The blocks of a parameter structure\<close>

text \<open>
  The strings of the country list, the pointer array, and the structure.
\<close>

definition params_blocks :: "heap \<Rightarrow> addr \<Rightarrow> addr list option" where
  "params_blocks h p =
     (case lookup h p of
        Some (LoadFlowParametersObj s) \<Rightarrow>
          (case lookup h (countries_to_balance s) of
             Some (PtrArr ps) \<Rightarrow>
               if countries_to_balance_count s = int (length ps)
               then Some (ps @ [countries_to_balance s, p]) else None
           | _ \<Rightarrow> None)
      | _ \<Rightarrow> None)"

subsection \<open>Concrete inputs\<close>

text \<open>
  Python lists of doubles, of ints and of strings. Only the conversion the type tag
  of the column selects is consulted, the other two are left at \<open>None\<close>.
\<close>

definition floats :: "double list \<Rightarrow> py_list" where
  "floats v = \<lparr>as_vector_string = None, as_vector_double = Some v, as_vector_int = None\<rparr>"

definition ints :: "int32 list \<Rightarrow> py_list" where
  "ints v = \<lparr>as_vector_string = None, as_vector_double = None, as_vector_int = Some v\<rparr>"

definition strings :: "string list \<Rightarrow> py_list" where
  "strings v = \<lparr>as_vector_string = Some v, as_vector_double = None, as_vector_int = None\<rparr>"

text \<open>
  The table of Section 8 of the specification: an index column "id" of strings
  \<open>B1\<close>, \<open>B2\<close> and a column "v" of the doubles 1.05 and 0.98 (written as IEEE 754 bit
  patterns), and the store \<open>createDataframe\<close> builds for it from the empty store.
\<close>

definition example_values :: "py_list list" where
  "example_values =
     [\<lparr>as_vector_string = Some [''B1'', ''B2''], as_vector_double = None, as_vector_int = None\<rparr>,
      \<lparr>as_vector_string = None, as_vector_double = Some [0x3FF0CCCCCCCCCCCD, 0x3FEF5C28F5C28F5C],
       as_vector_int = None\<rparr>]"

definition example_table :: heap where
  "example_table =
     \<lparr>cells =
        [Some (DataframeObj \<lparr>series = 2, series_count = 2\<rparr>),
         Some (SeriesArr
           [\<lparr>name = 3, index = 1, type = 0, data = Some \<lparr>length_a = 2, ptr = 6\<rparr>\<rparr>,
            \<lparr>name = 7, index = 0, type = 1, data = Some \<lparr>length_a = 2, ptr = 8\<rparr>\<rparr>]),
         Some (MallocChars (''id'' @ [NUL])),
         Some (CharArr (''B1'' @ [NUL])),
         Some (CharArr (''B2'' @ [NUL])),
         Some (PtrArr [4, 5]),
         Some (MallocChars (''v'' @ [NUL])),
         Some (DoubleArr [0x3FF0CCCCCCCCCCCD, 0x3FEF5C28F5C28F5C])],
      freed = []\<rparr>"

text \<open>
  Two empty tables; a table with a column of tag 9 whose name is a character array
  from \<^verbatim>\<open>new[]\<close> and whose data pointer happens to point at a live array; the store \<open>createDataframe\<close> builds for one column "b" of
  the bools \<open>[False, True]\<close>; the store it builds for one column "s" holding one
  string with a NUL character in it.
\<close>

definition two_tables :: heap where
  "two_tables =
     \<lparr>cells = [Some (SeriesArr []), Some (DataframeObj \<lparr>series = 1, series_count = 0\<rparr>),
               Some (SeriesArr []), Some (DataframeObj \<lparr>series = 3, series_count = 0\<rparr>)],
      freed = []\<rparr>"

definition leaky_table :: heap where
  "leaky_table =
     \<lparr>cells =
        [Some (DataframeObj \<lparr>series = 2, series_count = 1\<rparr>),
         Some (SeriesArr [\<lparr>name = 3, index = 0, type = 9, data = Some \<lparr>length_a = 1, ptr = 4\<rparr>\<rparr>]),
         Some (CharArr (''x'' @ [NUL])),
         Some (DoubleArr [0x3FF0000000000000])],
      freed = []\<rparr>"

definition bool_column :: series where
  "bool_column = \<lparr>name = 3, index = 0, type = 3, data = Some \<lparr>length_a = 2, ptr = 4\<rparr>\<rparr>"

definition bool_table :: heap where
  "bool_table =
     \<lparr>cells =
        [Some (DataframeObj \<lparr>series = 2, series_count = 1\<rparr>),
         Some (SeriesArr [bool_column]),
         Some (MallocChars (''b'' @ [NUL])),
         Some (IntArr [0, 1])],
      freed = []\<rparr>"

definition nul_column :: series where
  "nul_column = \<lparr>name = 3, index = 1, type = 0, data = Some \<lparr>length_a = 1, ptr = 5\<rparr>\<rparr>"

definition nul_table :: heap where
  "nul_table =
     \<lparr>cells =
        [Some (DataframeObj \<lparr>series = 2, series_count = 1\<rparr>),
         Some (SeriesArr [nul_column]),
         Some (MallocChars (''s'' @ [NUL])),
         Some (CharArr (''a'' @ [NUL] @ ''b'' @ [NUL])),
         Some (PtrArr [4])],
      freed = []\<rparr>"

text \<open>
  A store that holds a default configuration with the countries FR and DE.
\<close>

definition default_parameters :: load_flow_parameters where
  "default_parameters =
     \<lparr>voltage_init_mode = 0, transformer_voltage_control_on = 0,
      no_generator_reactive_limits = 0, phase_shifter_regulation_on = 1,
      twt_split_shunt_admittance = 0, simul_shunt = 0, read_slack_bus = 1,
      write_slack_bus = 0, distributed_slack = 1, balance_type = 0,
      dc_use_transformer_ratio = 1, countries_to_balance = 3,
      countries_to_balance_count = 2, connected_component_mode = 0\<rparr>"

definition configured :: heap where
  "configured =
     \<lparr>cells =
        [Some (CharArr (''FR'' @ [NUL])),
         Some (CharArr (''DE'' @ [NUL])),
         Some (PtrArr [1, 2]),
         Some (LoadFlowParametersObj default_parameters)],
      freed = []\<rparr>"

section \<open>Facts about the store\<close>

text \<open>
  Releasing a list of live, pairwise distinct blocks succeeds and leaves every other
  block as it was.
\<close>

lemma and_then_Inr [simp]: "and_then (Inr x) f = f x"
  by (simp add: and_then_def)

lemma and_then_Inl [simp]: "and_then (Inl e) f = Inl e"
  by (simp add: and_then_def)

lemma and_then_eq_Inr: "and_then r f = Inr y \<longleftrightarrow> (\<exists>x. r = Inr x \<and> f x = Inr y)"
  by (cases r) simp_all

lemma live_nonzero: "live h a \<Longrightarrow> a \<noteq> 0"
  by (auto simp: live_def lookup_def split: if_splits)

lemma live_bound: "live h a \<Longrightarrow> a \<le> length (cells h)"
  by (auto simp: live_def lookup_def split: if_splits)

lemma dispose_Nil [simp]: "dispose h [] = h"
  by (simp add: dispose_def)

lemma dispose_append: "dispose (dispose h xs) ys = dispose h (xs @ ys)"
  by (simp add: dispose_def)

lemma freed_dispose [simp]: "freed (dispose h xs) = freed h @ xs"
  by (simp add: dispose_def)

lemma length_fold_clear: "length (fold clear xs cs) = length cs"
  by (induction xs arbitrary: cs) (simp_all add: clear_def)

lemma length_cells_dispose [simp]: "length (cells (dispose h xs)) = length (cells h)"
  by (simp add: dispose_def length_fold_clear)

lemma nth_fold_clear:
  "i < length cs \<Longrightarrow>
   fold clear xs cs ! i = (if i \<in> (\<lambda>a. a - 1) ` set xs then None else cs ! i)"
proof (induction xs arbitrary: cs)
  case Nil
  then show ?case by simp
next
  case (Cons x xs)
  then show ?case by (auto simp: nth_list_update clear_def)
qed

lemma lookup_dispose:
  assumes "0 \<notin> set xs"
  shows "lookup (dispose h xs) a = (if a \<in> set xs then None else lookup h a)"
proof (cases "a = 0 \<or> length (cells h) < a")
  case True
  then show ?thesis by (auto simp: lookup_def)
next
  case False
  then have i: "a - 1 < length (cells h)" and a: "a \<noteq> 0" by auto
  have "(a - 1 \<in> (\<lambda>a. a - 1) ` set xs) = (a \<in> set xs)"
  proof
    assume "a - 1 \<in> (\<lambda>a. a - 1) ` set xs"
    then obtain b where b: "b \<in> set xs" "a - 1 = b - 1" by auto
    with assms have "b \<noteq> 0" by (cases "b = 0") auto
    with a b show "a \<in> set xs" by (cases a; cases b) auto
  qed auto
  with False i show ?thesis
    by (simp add: lookup_def dispose_def nth_fold_clear length_fold_clear)
qed

lemma live_dispose:
  "0 \<notin> set xs \<Longrightarrow> live (dispose h xs) a \<longleftrightarrow> live h a \<and> a \<notin> set xs"
  by (simp add: live_def lookup_dispose)

lemma allocated_live: "allocated h al a \<Longrightarrow> live h a"
  by (simp add: allocated_def live_def split: option.splits)

lemma allocated_nonzero: "allocated h al a \<Longrightarrow> a \<noteq> 0"
  by (rule live_nonzero) (rule allocated_live)

lemma allocated_lookup: "lookup h a = Some b \<Longrightarrow> allocated h (allocator_of b) a"
  by (simp add: allocated_def)

lemma allocated_dispose:
  "0 \<notin> set xs \<Longrightarrow> allocated (dispose h xs) al a \<longleftrightarrow> allocated h al a \<and> a \<notin> set xs"
  by (simp add: allocated_def lookup_dispose)

lemma release_allocated: "allocated h al a \<Longrightarrow> release al h a = Inr (dispose h [a])"
  by (auto simp: release_def allocated_def dispose_def clear_def lookup_def
      split: option.splits if_splits)

lemma delete_allocated: "allocated h New a \<Longrightarrow> delete h a = Inr (dispose h [a])"
  by (simp add: delete_def release_allocated)

lemma delete_array_allocated: "allocated h NewArray a \<Longrightarrow> delete_array h a = Inr (dispose h [a])"
  by (simp add: delete_array_def release_allocated)

lemma list_all_allocated_nonzero: "list_all (allocated h al) xs \<Longrightarrow> 0 \<notin> set xs"
  by (auto simp: list_all_iff dest: allocated_nonzero)

lemma list_all_allocated_dispose:
  "list_all (allocated h al) ys \<Longrightarrow> 0 \<notin> set xs \<Longrightarrow> set xs \<inter> set ys = {} \<Longrightarrow>
   list_all (allocated (dispose h xs) al) ys"
  by (auto simp: list_all_iff allocated_dispose)

lemma delete_each_dispose:
  "distinct ps \<Longrightarrow> list_all (allocated h NewArray) ps \<Longrightarrow> delete_each h ps = Inr (dispose h ps)"
proof (induction ps arbitrary: h)
  case Nil
  then show ?case by simp
next
  case (Cons p ps)
  from Cons.prems have p: "allocated h NewArray p" "p \<notin> set ps" "distinct ps"
      "list_all (allocated h NewArray) ps"
    by auto
  have "list_all (allocated (dispose h [p]) NewArray) ps"
    using p by (intro list_all_allocated_dispose) (auto dest: allocated_nonzero)
  with Cons.IH [of "dispose h [p]"] p show ?case
    by (simp add: delete_array_allocated dispose_append)
qed

lemma snd_alloc [simp]: "snd (alloc h b) = Suc (length (cells h))"
  by (simp add: alloc_def)

lemma cells_alloc [simp]: "cells (fst (alloc h b)) = cells h @ [Some b]"
  by (simp add: alloc_def)

lemma freed_alloc [simp]: "freed (fst (alloc h b)) = freed h"
  by (simp add: alloc_def)

lemma lookup_alloc [simp]:
  "lookup (fst (alloc h b)) a = (if a = Suc (length (cells h)) then Some b else lookup h a)"
  by (auto simp: lookup_def alloc_def nth_append)

lemma live_alloc: "live (fst (alloc h b)) a \<longleftrightarrow> a = Suc (length (cells h)) \<or> live h a"
  by (simp add: live_def)

lemma store_live: "live h a \<Longrightarrow> store h a b = Inr (put h a b)"
  by (auto simp: store_def live_def put_def)

lemma lookup_put: "live h a \<Longrightarrow> lookup (put h a b) x = (if x = a then Some b else lookup h x)"
  by (auto simp: lookup_def put_def live_def nth_list_update split: if_splits)

lemma freed_put [simp]: "freed (put h a b) = freed h"
  by (simp add: put_def)

lemma length_cells_put [simp]: "length (cells (put h a b)) = length (cells h)"
  by (simp add: put_def)

lemma live_put: "live h a \<Longrightarrow> live (put h a b) x \<longleftrightarrow> live h x"
  by (auto simp: live_def lookup_put)

section \<open>Arrays of tables\<close>

lemma read_dataframes_cong:
  "read_dataframes h ps = Inr ds \<Longrightarrow> (\<And>a. live h a \<Longrightarrow> lookup h2 a = lookup h a) \<Longrightarrow>
   read_dataframes h2 ps = Inr ds"
proof (induction ps arbitrary: ds)
  case Nil
  then show ?case by simp
next
  case (Cons p ps)
  from Cons.prems(1) obtain d ds' where d: "lookup h p = Some (DataframeObj d)"
    and r: "read_dataframes h ps = Inr ds'" and ds: "ds = d # ds'"
    by (auto simp: and_then_eq_Inr split: option.splits block.splits)
  from d have "live h p" by (simp add: live_def)
  with Cons.prems(2) d have "lookup h2 p = Some (DataframeObj d)" by simp
  with Cons.IH [OF r Cons.prems(2)] ds show ?case by simp
qed

lemma read_dataframes_nth:
  "read_dataframes h ps = Inr ds \<Longrightarrow>
   length ds = length ps \<and> (\<forall>i<length ps. lookup h (ps ! i) = Some (DataframeObj (ds ! i)))"
proof (induction ps arbitrary: ds)
  case Nil
  then show ?case by simp
next
  case (Cons p ps)
  from Cons.prems(1) obtain d ds' where d: "lookup h p = Some (DataframeObj d)"
    and r: "read_dataframes h ps = Inr ds'" and ds: "ds = d # ds'"
    by (auto simp: and_then_eq_Inr split: option.splits block.splits)
  with Cons.IH [OF r] show ?case by (auto simp: nth_Cons split: nat.splits)
qed

lemma createDataframeArray_eq:
  assumes "read_dataframes h dfs = Inr headers"
  shows "createDataframeArray h dfs = Inr (table_array h headers, Suc (length (cells h)))"
proof -
  let ?h1 = "fst (alloc h (DataframeArrayObj \<lparr>dataframes = 0, dataframes_count = 0\<rparr>))"
  let ?h2 = "fst (alloc ?h1 Uninit)"
  have r: "read_dataframes ?h2 dfs = Inr headers"
    by (rule read_dataframes_cong [OF assms]) (auto simp: dest: live_bound)
  have l: "length headers = length dfs"
    using read_dataframes_nth [OF assms] by simp
  have live2: "live ?h2 (Suc (Suc (length (cells h))))" by (simp add: live_def)
  have live1: "live (put ?h2 (Suc (Suc (length (cells h)))) (DataframeArr headers)) (Suc (length (cells h)))"
    by (simp add: live_put [OF live2]) (simp add: live_def)
  show ?thesis
    unfolding createDataframeArray_def
    by (simp add: split_beta r store_live live2 live1 l)
       (simp add: put_def alloc_def table_array_def list_update_append l)
qed

lemma read_dataframes_list_all2:
  "list_all2 (\<lambda>p d. lookup h p = Some (DataframeObj d)) ps ds \<Longrightarrow> read_dataframes h ps = Inr ds"
  by (induction ps ds rule: list_all2_induct) simp_all

lemma dataframe_array_deleter_table_array:
  "dataframe_array_deleter (table_array h headers) (Suc (length (cells h))) =
     Inr (dispose (table_array h headers) [Suc (Suc (length (cells h))), Suc (length (cells h))])"
proof -
  let ?t = "table_array h headers"
  let ?p = "Suc (length (cells h))"
  have 1: "lookup ?t ?p = Some (DataframeArrayObj \<lparr>dataframes = Suc ?p,
              dataframes_count = int (length headers)\<rparr>)"
    by (simp add: lookup_def table_array_def nth_append)
  have 2: "allocated ?t NewArray (Suc ?p)"
    by (simp add: allocated_def lookup_def table_array_def nth_append)
  have 3: "allocated (dispose ?t [Suc ?p]) New ?p"
    using 1 by (simp add: allocated_dispose) (simp add: allocated_def)
  show ?thesis
    by (simp add: dataframe_array_deleter_def 1 delete_allocated delete_array_allocated 2 3
          dispose_append)
qed

lemma cells_dispose_table_array:
  "cells (dispose (table_array h headers) [Suc (Suc (length (cells h))), Suc (length (cells h))])
     = cells h @ [None, None]"
  by (simp add: dispose_def table_array_def clear_def list_update_append)

text \<open>
  C8. On an empty sequence of tables \<open>createDataframeArray\<close> returns an array
  structure whose count is 0 and whose header array is empty; the deleter of its
  shared pointer then returns without a fault, having released the header array and
  the structure, and every block that existed before is untouched.
\<close>

theorem createDataframeArray_empty:
  "\<exists>h1 p a h2.
     createDataframeArray h [] = Inr (h1, p)
     \<and> lookup h1 p = Some (DataframeArrayObj a)
     \<and> dataframes_count a = 0
     \<and> lookup h1 (dataframes a) = Some (DataframeArr [])
     \<and> dataframe_array_deleter h1 p = Inr h2
     \<and> freed h2 = freed h @ [dataframes a, p]
     \<and> cells h2 = cells h @ [None, None]"
proof -
  let ?p = "Suc (length (cells h))"
  let ?a = "\<lparr>dataframes = Suc ?p, dataframes_count = 0\<rparr>"
  have c: "createDataframeArray h [] = Inr (table_array h [], ?p)"
    by (rule createDataframeArray_eq) simp
  have 1: "lookup (table_array h []) ?p = Some (DataframeArrayObj ?a)"
    by (simp add: lookup_def table_array_def nth_append)
  have 2: "lookup (table_array h []) (Suc ?p) = Some (DataframeArr [])"
    by (simp add: lookup_def table_array_def nth_append)
  have 3: "freed (table_array h []) = freed h"
    by (simp add: table_array_def)
  show ?thesis
    using c 1 2 3 dataframe_array_deleter_table_array [of h "[]"]
      cells_dispose_table_array [of h "[]"]
    by (intro exI [of _ "table_array h []"] exI [of _ ?p] exI [of _ ?a]
          exI [of _ "dispose (table_array h []) [Suc ?p, ?p]"]) simp
qed

text \<open>
  C5. When every pointer of the input points to a live table header,
  \<open>createDataframeArray\<close> returns; the store has grown by exactly two blocks, the
  array structure and one array holding the headers by value in input order; the
  count is the length of the input. Every earlier block (column arrays, buffers,
  names) is as it was, and the copied headers hold the same column-array pointers as
  the originals. The deleter of the shared pointer releases the header array and
  then the structure, and nothing else.
\<close>

theorem createDataframeArray_headers:
  assumes "list_all2 (\<lambda>p d. lookup h p = Some (DataframeObj d)) dfs headers"
  shows "\<exists>h1 p a h2.
     createDataframeArray h dfs = Inr (h1, p)
     \<and> lookup h1 p = Some (DataframeArrayObj a)
     \<and> dataframes_count a = int (length dfs)
     \<and> lookup h1 (dataframes a) = Some (DataframeArr headers)
     \<and> cells h1 = cells h @ [Some (DataframeArrayObj a), Some (DataframeArr headers)]
     \<and> freed h1 = freed h
     \<and> dataframe_array_deleter h1 p = Inr h2
     \<and> freed h2 = freed h @ [dataframes a, p]
     \<and> cells h2 = cells h @ [None, None]"
proof -
  let ?p = "Suc (length (cells h))"
  let ?a = "\<lparr>dataframes = Suc ?p, dataframes_count = int (length dfs)\<rparr>"
  let ?t = "table_array h headers"
  from assms have r: "read_dataframes h dfs = Inr headers"
    by (rule read_dataframes_list_all2)
  from assms have l: "length headers = length dfs"
    by (simp add: list_all2_lengthD)
  have c: "createDataframeArray h dfs = Inr (?t, ?p)"
    using r by (rule createDataframeArray_eq)
  have 1: "lookup ?t ?p = Some (DataframeArrayObj ?a)"
    by (simp add: lookup_def table_array_def nth_append l)
  have 2: "lookup ?t (Suc ?p) = Some (DataframeArr headers)"
    by (simp add: lookup_def table_array_def nth_append)
  have 3: "freed ?t = freed h"
    by (simp add: table_array_def)
  have 4: "cells ?t = cells h @ [Some (DataframeArrayObj ?a), Some (DataframeArr headers)]"
    by (simp add: table_array_def l)
  show ?thesis
    using c 1 2 3 4 dataframe_array_deleter_table_array [of h headers]
      cells_dispose_table_array [of h headers]
    by (intro exI [of _ ?t] exI [of _ ?p] exI [of _ ?a]
          exI [of _ "dispose ?t [Suc ?p, ?p]"]) simp
qed

theorem createDataframeArray_headers_witness:
  "\<exists>h1 p a h2.
     createDataframeArray two_tables [4, 2] = Inr (h1, p)
     \<and> lookup h1 p = Some (DataframeArrayObj a)
     \<and> dataframes_count a = 2
     \<and> lookup h1 (dataframes a) =
          Some (DataframeArr [\<lparr>series = 3, series_count = 0\<rparr>, \<lparr>series = 1, series_count = 0\<rparr>])
     \<and> cells h1 = cells two_tables @
          [Some (DataframeArrayObj a),
           Some (DataframeArr [\<lparr>series = 3, series_count = 0\<rparr>, \<lparr>series = 1, series_count = 0\<rparr>])]
     \<and> freed h1 = []
     \<and> dataframe_array_deleter h1 p = Inr h2
     \<and> freed h2 = [dataframes a, p]
     \<and> cells h2 = cells two_tables @ [None, None]"
proof -
  have "list_all2 (\<lambda>p d. lookup two_tables p = Some (DataframeObj d)) [4, 2]
          [\<lparr>series = 3, series_count = 0\<rparr>, \<lparr>series = 1, series_count = 0\<rparr>]"
    by (simp add: two_tables_def lookup_def)
  from createDataframeArray_headers [OF this] have "\<exists>h1 p a h2.
     createDataframeArray two_tables [4, 2] = Inr (h1, p)
     \<and> lookup h1 p = Some (DataframeArrayObj a)
     \<and> dataframes_count a = int (length [4, 2 :: nat])
     \<and> lookup h1 (dataframes a) =
          Some (DataframeArr [\<lparr>series = 3, series_count = 0\<rparr>, \<lparr>series = 1, series_count = 0\<rparr>])
     \<and> cells h1 = cells two_tables @
          [Some (DataframeArrayObj a),
           Some (DataframeArr [\<lparr>series = 3, series_count = 0\<rparr>, \<lparr>series = 1, series_count = 0\<rparr>])]
     \<and> freed h1 = freed two_tables
     \<and> dataframe_array_deleter h1 p = Inr h2
     \<and> freed h2 = freed two_tables @ [dataframes a, p]
     \<and> cells h2 = cells two_tables @ [None, None]" .
  moreover have "freed two_tables = []" by (simp add: two_tables_def)
  ultimately show ?thesis by simp
qed

section \<open>Releasing a table\<close>

text \<open>
  Each step of \<open>deleteDataframe\<close> releases the blocks the vocabulary lists for it; the
  blocks of the columns still to come are not among them, so their layout is still
  readable when their turn comes.
\<close>

lemma list_all_live_nonzero: "list_all (live h) xs \<Longrightarrow> 0 \<notin> set xs"
  by (auto simp: list_all_iff dest: live_nonzero)

lemma list_all_live_dispose:
  "list_all (live h) ys \<Longrightarrow> list_all (live h) xs \<Longrightarrow> set xs \<inter> set ys = {} \<Longrightarrow>
   list_all (live (dispose h xs)) ys"
  by (auto simp: list_all_iff live_dispose list_all_live_nonzero dest: live_nonzero)

lemma deleteCharPtrPtr_dispose:
  assumes "lookup h p = Some (PtrArr ps)" and "n = int (length ps)"
    and "distinct (ps @ [p])" and "list_all (allocated h NewArray) (ps @ [p])"
  shows "deleteCharPtrPtr h p n = Inr (dispose h (ps @ [p]))"
proof -
  from assms have e: "delete_each h ps = Inr (dispose h ps)"
    by (intro delete_each_dispose) auto
  from assms have "allocated (dispose h ps) NewArray p"
    by (auto simp: allocated_dispose list_all_allocated_nonzero)
  then have d: "delete_array (dispose h ps) p = Inr (dispose h (ps @ [p]))"
    by (simp add: delete_array_allocated dispose_append)
  show ?thesis
  proof (cases "n \<le> 0")
    case True
    with assms(2) have "ps = []" by simp
    with True d show ?thesis by (simp add: deleteCharPtrPtr_def)
  next
    case False
    with assms(1,2) e d show ?thesis by (simp add: deleteCharPtrPtr_def)
  qed
qed

lemma buffer_release:
  assumes "buffer_blocks h c = Some bs" and "distinct bs" and "list_all (allocated h NewArray) bs"
  shows "(if type c = 0 then
            (case data c of None \<Rightarrow> Inl MemoryFault
             | Some d \<Rightarrow> deleteCharPtrPtr h (ptr d) (length_a d))
          else if type c = 1 then
            (case data c of None \<Rightarrow> Inl MemoryFault | Some d \<Rightarrow> delete_array h (ptr d))
          else if type c = 2 \<or> type c = 3 then
            (case data c of None \<Rightarrow> Inl MemoryFault | Some d \<Rightarrow> delete_array h (ptr d))
          else Inr h) = Inr (dispose h bs)"
proof (cases "type c = 0")
  case True
  with assms(1) obtain d ps where d: "data c = Some d" "lookup h (ptr d) = Some (PtrArr ps)"
      "length_a d = int (length ps)" "bs = ps @ [ptr d]"
    by (auto simp: buffer_blocks_def split: option.splits block.splits if_splits)
  with assms(2,3) have "deleteCharPtrPtr h (ptr d) (length_a d) = Inr (dispose h bs)"
    by (simp add: deleteCharPtrPtr_dispose)
  with True d show ?thesis by simp
next
  case False
  show ?thesis
  proof (cases "type c = 1 \<or> type c = 2 \<or> type c = 3")
    case True
    with False assms(1) obtain d where d: "data c = Some d" "bs = [ptr d]"
      by (auto simp: buffer_blocks_def split: option.splits)
    with assms(3) have "delete_array h (ptr d) = Inr (dispose h bs)"
      by (simp add: delete_array_allocated)
    with True False d show ?thesis by auto
  next
    case f: False
    with False assms(1) have "bs = []" by (auto simp: buffer_blocks_def)
    with False f show ?thesis by simp
  qed
qed

lemma delete_column_dispose:
  assumes "column_blocks h c = Some bs" and "distinct bs" and "list_all (allocated h NewArray) bs"
  shows "delete_column h c = Inr (dispose h bs)"
proof -
  from assms(1) obtain b where b: "buffer_blocks h c = Some b" "bs = b @ [name c]"
    by (auto simp: column_blocks_def)
  with assms have r: "distinct b" "list_all (allocated h NewArray) b"
      "allocated h NewArray (name c)" "name c \<notin> set b"
    by auto
  then have "allocated (dispose h b) NewArray (name c)"
    by (simp add: allocated_dispose list_all_allocated_nonzero)
  then have "delete_array (dispose h b) (name c) = Inr (dispose h bs)"
    by (simp add: delete_array_allocated dispose_append b)
  with buffer_release [OF b(1) r(1,2)] show ?thesis
    unfolding delete_column_def by simp
qed

lemma buffer_blocks_dispose:
  assumes "buffer_blocks h c = Some bs" and "set bs \<inter> set xs = {}" and "0 \<notin> set xs"
  shows "buffer_blocks (dispose h xs) c = Some bs"
proof (cases "type c = 0")
  case True
  with assms(1) obtain d ps where d: "data c = Some d" "lookup h (ptr d) = Some (PtrArr ps)"
      "length_a d = int (length ps)" "bs = ps @ [ptr d]"
    by (auto simp: buffer_blocks_def split: option.splits block.splits if_splits)
  with assms(2) have "ptr d \<notin> set xs" by auto
  with d assms(3) have "lookup (dispose h xs) (ptr d) = Some (PtrArr ps)"
    by (simp add: lookup_dispose)
  with True d show ?thesis by (simp add: buffer_blocks_def)
next
  case False
  with assms(1) show ?thesis by (simp add: buffer_blocks_def)
qed

lemma column_blocks_dispose:
  assumes "column_blocks h c = Some bs" and "set bs \<inter> set xs = {}" and "0 \<notin> set xs"
  shows "column_blocks (dispose h xs) c = Some bs"
proof -
  from assms(1) obtain b where b: "buffer_blocks h c = Some b" "bs = b @ [name c]"
    by (auto simp: column_blocks_def)
  with assms(2) have "set b \<inter> set xs = {}" by auto
  from buffer_blocks_dispose [OF b(1) this assms(3)] b show ?thesis
    by (simp add: column_blocks_def)
qed

lemma columns_blocks_dispose:
  "columns_blocks h cs = Some bs \<Longrightarrow> set bs \<inter> set xs = {} \<Longrightarrow> 0 \<notin> set xs \<Longrightarrow>
   columns_blocks (dispose h xs) cs = Some bs"
proof (induction cs arbitrary: bs)
  case Nil
  then show ?case by simp
next
  case (Cons c cs)
  from Cons.prems(1) obtain b1 b2 where b: "column_blocks h c = Some b1"
      "columns_blocks h cs = Some b2" "bs = b1 @ b2"
    by (auto split: option.splits)
  with Cons.prems(2) have d: "set b1 \<inter> set xs = {}" "set b2 \<inter> set xs = {}" by auto
  from column_blocks_dispose [OF b(1) d(1) Cons.prems(3)]
    Cons.IH [OF b(2) d(2) Cons.prems(3)] b(3)
  show ?case by simp
qed

lemma delete_columns_dispose:
  "columns_blocks h cs = Some bs \<Longrightarrow> distinct bs \<Longrightarrow> list_all (allocated h NewArray) bs \<Longrightarrow>
   delete_columns h cs = Inr (dispose h bs)"
proof (induction cs arbitrary: h bs)
  case Nil
  then show ?case by simp
next
  case (Cons c cs)
  from Cons.prems(1) obtain b1 b2 where b: "column_blocks h c = Some b1"
      "columns_blocks h cs = Some b2" "bs = b1 @ b2"
    by (auto split: option.splits)
  with Cons.prems have r: "distinct b1" "distinct b2" "set b1 \<inter> set b2 = {}"
      "list_all (allocated h NewArray) b1" "list_all (allocated h NewArray) b2"
    by auto
  have z: "0 \<notin> set b1" using r(4) by (rule list_all_allocated_nonzero)
  have 1: "delete_column h c = Inr (dispose h b1)"
    using b(1) r(1,4) by (rule delete_column_dispose)
  have 2: "columns_blocks (dispose h b1) cs = Some b2"
    using b(2) r(3) z by (intro columns_blocks_dispose) auto
  have 3: "list_all (allocated (dispose h b1) NewArray) b2"
    using r(5) z r(3) by (rule list_all_allocated_dispose)
  from Cons.IH [OF 2 r(2) 3] 1 b(3) show ?case
    by (simp add: dispose_append)
qed

text \<open>
  On a table whose blocks are pairwise distinct and came from the allocators the
  releases expect, \<open>deleteDataframe\<close> performs exactly the releases of
  \<open>release_order\<close>, in that order.
\<close>

lemma deleteDataframe_dispose:
  assumes "release_order h df = Some bs" and "distinct bs" and "matched h df bs"
  shows "deleteDataframe h df = Inr (dispose h bs)"
proof -
  from assms(1) obtain d cols b where d: "lookup h df = Some (DataframeObj d)"
      "lookup h (series d) = Some (SeriesArr cols)" "series_count d = int (length cols)"
      "columns_blocks h cols = Some b" "bs = b @ [series d, df]"
    by (auto simp: release_order_def split: option.splits block.splits if_splits)
  have c: "columns_of h d = Inr cols"
    using d(2,3) by (simp add: columns_of_def)
  from d(5) assms(2) have r: "distinct b" "series d \<notin> set b" "df \<notin> set b" "series d \<noteq> df"
    by auto
  have "allocated h NewArray a" if "a \<in> set b" for a
  proof -
    from that r(3) have "a \<noteq> df" by auto
    with assms(3) d(5) that show ?thesis by (auto simp: matched_def list_all_iff)
  qed
  then have m1: "list_all (allocated h NewArray) b" by (simp add: list_all_iff)
  from assms(3) d(5) r(4) have m2: "allocated h NewArray (series d)" "allocated h New df"
    by (auto simp: matched_def)
  note m = m1 m2
  have 1: "delete_columns h cols = Inr (dispose h b)"
    using d(4) r(1) m(1) by (rule delete_columns_dispose)
  have z: "0 \<notin> set b" using m(1) by (rule list_all_allocated_nonzero)
  have 2: "delete_array (dispose h b) (series d) = Inr (dispose h (b @ [series d]))"
    using r m z by (simp add: delete_array_allocated allocated_dispose dispose_append)
  have "allocated (dispose h (b @ [series d])) New df"
    using r m z allocated_nonzero [OF m(2)] by (simp add: allocated_dispose)
  then have 3: "delete (dispose h (b @ [series d])) df = Inr (dispose h bs)"
    by (simp add: delete_allocated dispose_append d(5))
  show ?thesis
    by (simp add: deleteDataframe_def d(1) c 1 2 3)
qed

lemma matched_nonzero: "matched h p bs \<Longrightarrow> 0 \<notin> set bs"
  by (auto simp: matched_def list_all_iff dest: allocated_nonzero)

section \<open>Allocating, copying and reading strings\<close>

lemma grow_Nil [simp]: "grow h [] = h"
  by (simp add: grow_def)

lemma grow_grow: "grow (grow h xs) ys = grow h (xs @ ys)"
  by (simp add: grow_def)

lemma cells_grow [simp]: "cells (grow h bs) = cells h @ bs"
  by (simp add: grow_def)

lemma freed_grow [simp]: "freed (grow h bs) = freed h"
  by (simp add: grow_def)

lemma alloc_grow: "alloc h b = (grow h [Some b], Suc (length (cells h)))"
  by (simp add: alloc_def grow_def)

lemma lookup_grow_old: "a \<le> length (cells h) \<Longrightarrow> lookup (grow h bs) a = lookup h a"
  by (auto simp: lookup_def nth_append)

lemma lookup_grow_new:
  "i < length bs \<Longrightarrow> lookup (grow h bs) (Suc (length (cells h) + i)) = bs ! i"
  by (simp add: lookup_def nth_append)

lemma lookup_grow_live: "live h a \<Longrightarrow> lookup (grow h bs) a = lookup h a"
  by (rule lookup_grow_old) (rule live_bound)

lemma length_string_blocks [simp]: "length (string_blocks ss) = length ss"
  by (simp add: string_blocks_def)

lemma fresh_addrs_0 [simp]: "fresh_addrs h 0 = []"
  by (simp add: fresh_addrs_def)

lemma fresh_addrs_Suc:
  "fresh_addrs h (Suc k) = Suc (length (cells h)) # fresh_addrs (grow h [b]) k"
proof -
  have "[Suc (length (cells h)) ..< Suc (length (cells h)) + Suc k] =
        Suc (length (cells h)) # [Suc (Suc (length (cells h))) ..< Suc (length (cells h)) + Suc k]"
    by (rule upt_conv_Cons) simp
  then show ?thesis by (simp add: fresh_addrs_def)
qed

lemma length_fresh_addrs [simp]: "length (fresh_addrs h k) = k"
  by (simp add: fresh_addrs_def)

lemma set_fresh_addrs: "set (fresh_addrs h k) = {a. length (cells h) < a \<and> a \<le> length (cells h) + k}"
  by (auto simp: fresh_addrs_def)

lemma distinct_fresh_addrs [simp]: "distinct (fresh_addrs h k)"
  by (simp add: fresh_addrs_def)

lemma nth_fresh_addrs: "i < k \<Longrightarrow> fresh_addrs h k ! i = Suc (length (cells h) + i)"
  by (simp add: fresh_addrs_def nth_upt del: upt_Suc)

lemma copy_strings_grow:
  "copy_strings h ss = (grow h (string_blocks ss), fresh_addrs h (length ss))"
proof (induction ss arbitrary: h)
  case Nil
  then show ?case by (simp add: string_blocks_def)
next
  case (Cons s ss)
  from Cons [of "grow h [Some (CharArr (s @ [NUL]))]"] show ?case
    by (simp add: alloc_grow string_blocks_def grow_grow
          fresh_addrs_Suc [of h "length ss" "Some (CharArr (s @ [NUL]))"])
qed

lemma copyVectorStringToCharPtrPtr_grow:
  "copyVectorStringToCharPtrPtr h ss =
     (grow h (string_blocks ss @ [Some (PtrArr (fresh_addrs h (length ss)))]),
      Suc (length (cells h) + length ss))"
  by (simp add: copyVectorStringToCharPtrPtr_def copy_strings_grow alloc_grow grow_grow)

lemma c_str_terminated [simp]: "c_str (s @ [NUL]) = c_str s"
  by (induction s) (auto simp: c_str_def)

lemma c_str_idem [simp]: "c_str (c_str s) = c_str s"
  by (simp add: c_str_def)

lemma c_str_id: "NUL \<notin> set s \<Longrightarrow> c_str s = s"
  by (auto simp: c_str_def takeWhile_eq_all_conv)

lemma NUL_notin_c_str [simp]: "NUL \<notin> set (c_str s)"
  by (auto simp: c_str_def dest: set_takeWhileD)

lemma read_c_string_block:
  "lookup h p = Some (CharArr (s @ [NUL])) \<Longrightarrow> read_c_string h p = Inr (c_str s)"
  by (simp add: read_c_string_def)

lemma read_c_strings_blocks:
  "map (lookup h) ps = string_blocks ss \<Longrightarrow> read_c_strings h ps = Inr (map c_str ss)"
proof (induction ps arbitrary: ss)
  case Nil
  then show ?case by (simp add: string_blocks_def)
next
  case (Cons p ps)
  then obtain s ss' where s: "ss = s # ss'" "lookup h p = Some (CharArr (s @ [NUL]))"
      "map (lookup h) ps = string_blocks ss'"
    by (cases ss) (auto simp: string_blocks_def)
  with Cons.IH [of ss'] show ?case by (simp add: read_c_string_block)
qed

lemma read_c_string_cong:
  "lookup h2 p = lookup h p \<Longrightarrow> read_c_string h2 p = read_c_string h p"
  by (simp add: read_c_string_def)

lemma read_c_strings_cong:
  "(\<And>p. p \<in> set ps \<Longrightarrow> lookup h2 p = lookup h p) \<Longrightarrow> read_c_strings h2 ps = read_c_strings h ps"
proof (induction ps)
  case Nil
  then show ?case by simp
next
  case (Cons p ps)
  have "read_c_string h2 p = read_c_string h p"
    by (rule read_c_string_cong) (simp add: Cons.prems)
  moreover have "read_c_strings h2 ps = read_c_strings h ps"
    by (rule Cons.IH) (simp add: Cons.prems)
  ultimately show ?case by simp
qed

lemma read_c_string_live: "read_c_string h p = Inr s \<Longrightarrow> live h p"
  by (auto simp: read_c_string_def live_def split: option.splits)

lemma read_c_strings_live: "read_c_strings h ps = Inr ss \<Longrightarrow> list_all (live h) ps"
  by (induction ps arbitrary: ss) (auto simp: and_then_eq_Inr dest: read_c_string_live)

lemma read_strings_preserved:
  assumes "read_strings h p n = Inr ss" and "\<And>a. live h a \<Longrightarrow> lookup h2 a = lookup h a"
  shows "read_strings h2 p n = Inr ss"
proof (cases "n = 0")
  case True
  with assms(1) show ?thesis by (simp add: read_strings_def)
next
  case False
  with assms(1) obtain ps where ps: "0 < n" "lookup h p = Some (PtrArr ps)" "nat n \<le> length ps"
      "read_c_strings h (take (nat n) ps) = Inr ss"
    by (auto simp: read_strings_def split: if_splits option.splits block.splits)
  from ps(2) have "live h p" by (simp add: live_def)
  with assms(2) ps(2) have 1: "lookup h2 p = Some (PtrArr ps)" by simp
  from read_c_strings_live [OF ps(4)] assms(2)
  have "read_c_strings h2 (take (nat n) ps) = read_c_strings h (take (nat n) ps)"
    by (intro read_c_strings_cong) (auto simp: list_all_iff)
  with ps 1 False show ?thesis by (simp add: read_strings_def)
qed

lemma get_countries_to_balance_preserved:
  assumes "get_countries_to_balance h p = Inr ss" and "\<And>a. live h a \<Longrightarrow> lookup h2 a = lookup h a"
  shows "get_countries_to_balance h2 p = Inr ss"
proof -
  from assms(1) obtain s where s: "lookup h p = Some (LoadFlowParametersObj s)"
      "read_strings h (countries_to_balance s) (countries_to_balance_count s) = Inr ss"
    by (auto simp: get_countries_to_balance_def split: option.splits block.splits)
  from s(1) have "live h p" by (simp add: live_def)
  with assms(2) s(1) have "lookup h2 p = Some (LoadFlowParametersObj s)" by simp
  with read_strings_preserved [OF s(2) assms(2)] show ?thesis
    by (simp add: get_countries_to_balance_def)
qed

lemma read_c_strings_c_str: "read_c_strings h ps = Inr ss \<Longrightarrow> map c_str ss = ss"
proof (induction ps arbitrary: ss)
  case Nil
  then show ?case by simp
next
  case (Cons p ps)
  from Cons.prems obtain s ss' where s: "read_c_string h p = Inr s"
      "read_c_strings h ps = Inr ss'" "ss = s # ss'"
    by (auto simp: and_then_eq_Inr)
  from s(1) have "c_str s = s"
    by (auto simp: read_c_string_def split: option.splits block.splits if_splits)
  with Cons.IH [OF s(2)] s(3) show ?case by simp
qed

lemma read_strings_c_str:
  assumes "read_strings h p n = Inr ss"
  shows "map c_str ss = ss"
proof (cases "n = 0")
  case True
  with assms show ?thesis by (simp add: read_strings_def)
next
  case False
  with assms obtain ps where "read_c_strings h (take (nat n) ps) = Inr ss"
    by (auto simp: read_strings_def split: if_splits option.splits block.splits)
  then show ?thesis by (rule read_c_strings_c_str)
qed

subsection \<open>The table of the scenario\<close>

lemma createDataframe_example:
  "createDataframe empty_heap example_values [''id'', ''v''] [0, 1] [True, False]
     = Inr (example_table, 1)"
  by (simp add: createDataframe_def create_column_def column_data_def strdup_def alloc_def
        copyVectorStringToCharPtrPtr_def copyVectorDouble_def store_def lookup_def
        example_values_def example_table_def empty_heap_def c_str_def NUL_def)

lemma release_order_example: "release_order example_table 1 = Some [4, 5, 6, 3, 8, 7, 2, 1]"
  by (simp add: release_order_def column_blocks_def buffer_blocks_def lookup_def example_table_def)

section \<open>What a release can and cannot do\<close>

text \<open>The only failure of a release is undefined behaviour; no exception is raised.\<close>

lemma and_then_eq_Inl:
  "and_then r f = Inl e \<longleftrightarrow> r = Inl e \<or> (\<exists>x. r = Inr x \<and> f x = Inl e)"
  by (cases r) simp_all

lemma release_fault: "release al h a = Inl e \<Longrightarrow> e = MemoryFault"
  by (auto simp: release_def split: if_splits option.splits)

lemma delete_fault: "delete h a = Inl e \<Longrightarrow> e = MemoryFault"
  unfolding delete_def by (rule release_fault)

lemma delete_array_fault: "delete_array h a = Inl e \<Longrightarrow> e = MemoryFault"
  unfolding delete_array_def by (rule release_fault)

lemma delete_each_fault: "delete_each h ps = Inl e \<Longrightarrow> e = MemoryFault"
  by (induction ps arbitrary: h) (auto simp: and_then_eq_Inl dest: delete_array_fault)

lemma deleteCharPtrPtr_fault: "deleteCharPtrPtr h p n = Inl e \<Longrightarrow> e = MemoryFault"
  by (auto simp: deleteCharPtrPtr_def and_then_eq_Inl
      dest: delete_array_fault delete_each_fault split: if_splits option.splits block.splits)

lemma delete_column_fault: "delete_column h c = Inl e \<Longrightarrow> e = MemoryFault"
  by (auto simp: delete_column_def and_then_eq_Inl
      dest: delete_array_fault deleteCharPtrPtr_fault split: if_splits option.splits)

lemma delete_columns_fault: "delete_columns h cs = Inl e \<Longrightarrow> e = MemoryFault"
  by (induction cs arbitrary: h) (auto simp: and_then_eq_Inl dest: delete_column_fault)

lemma columns_of_fault: "columns_of h d = Inl e \<Longrightarrow> e = MemoryFault"
  by (auto simp: columns_of_def split: if_splits option.splits block.splits)

lemma deleteDataframe_fault: "deleteDataframe h df = Inl e \<Longrightarrow> e = MemoryFault"
  by (auto simp: deleteDataframe_def and_then_eq_Inl
      dest: delete_fault delete_array_fault delete_columns_fault columns_of_fault
      split: option.splits block.splits)

text \<open>A release empties blocks and writes none.\<close>

lemma release_lookup:
  "release al h a = Inr h1 \<Longrightarrow> lookup h1 x = None \<or> lookup h1 x = lookup h x"
  by (auto simp: release_def lookup_def nth_list_update split: if_splits option.splits)

lemma delete_array_lookup:
  "delete_array h a = Inr h1 \<Longrightarrow> lookup h1 x = None \<or> lookup h1 x = lookup h x"
  unfolding delete_array_def by (rule release_lookup)

lemma delete_each_lookup:
  "delete_each h ps = Inr h1 \<Longrightarrow> lookup h1 x = None \<or> lookup h1 x = lookup h x"
proof (induction ps arbitrary: h)
  case Nil
  then show ?case by simp
next
  case (Cons p ps)
  from Cons.prems obtain h2 where 1: "delete_array h p = Inr h2" and 2: "delete_each h2 ps = Inr h1"
    by (auto simp: and_then_eq_Inr)
  from Cons.IH [OF 2] delete_array_lookup [OF 1, of x] show ?case by auto
qed

lemma deleteCharPtrPtr_lookup:
  assumes "deleteCharPtrPtr h p n = Inr h1"
  shows "lookup h1 x = None \<or> lookup h1 x = lookup h x"
proof (cases "n \<le> 0")
  case True
  with assms show ?thesis by (auto simp: deleteCharPtrPtr_def dest: delete_array_lookup)
next
  case False
  with assms obtain ps h2 where 1: "delete_each h (take (nat n) ps) = Inr h2"
    and 2: "delete_array h2 p = Inr h1"
    by (auto simp: deleteCharPtrPtr_def and_then_eq_Inr split: option.splits block.splits if_splits)
  from delete_each_lookup [OF 1, of x] delete_array_lookup [OF 2, of x] show ?thesis by auto
qed

text \<open>
  The release of a column ends with \<^verbatim>\<open>delete[]\<close> on its name. When the name is storage
  from \<^verbatim>\<open>strdup\<close>, that release is undefined behaviour, whatever came before it.
\<close>

lemma delete_array_malloc:
  assumes "a \<noteq> 0" and "lookup h a = None \<or> lookup h a = Some (MallocChars s)"
  shows "delete_array h a = Inl MemoryFault"
  using assms by (auto simp: delete_array_def release_def)

lemma delete_column_malloc_name:
  assumes n: "name c \<noteq> 0" and l: "lookup h (name c) = Some (MallocChars s)"
  shows "delete_column h c = Inl MemoryFault"
proof -
  define r where "r =
       (if type c = 0 then
          (case data c of
             None \<Rightarrow> Inl MemoryFault
           | Some d \<Rightarrow> deleteCharPtrPtr h (ptr d) (length_a d))
        else if type c = 1 then
          (case data c of None \<Rightarrow> Inl MemoryFault | Some d \<Rightarrow> delete_array h (ptr d))
        else if type c = 2 \<or> type c = 3 then
          (case data c of None \<Rightarrow> Inl MemoryFault | Some d \<Rightarrow> delete_array h (ptr d))
        else Inr h)"
  have dc: "delete_column h c = and_then r (\<lambda>h1. delete_array h1 (name c))"
    by (simp add: delete_column_def r_def)
  show ?thesis
  proof (cases r)
    case (Inl e)
    then have "delete_column h c = Inl e" using dc by simp
    with delete_column_fault [of h c e] show ?thesis by simp
  next
    case (Inr h1)
    then have "lookup h1 (name c) = None \<or> lookup h1 (name c) = lookup h (name c)"
      unfolding r_def
      by (auto split: if_splits option.splits dest: deleteCharPtrPtr_lookup delete_array_lookup)
    with l have "delete_array h1 (name c) = Inl MemoryFault"
      by (intro delete_array_malloc [OF n]) auto
    with Inr dc show ?thesis by simp
  qed
qed

lemma deleteDataframe_malloc_name:
  assumes "lookup h df = Some (DataframeObj d)" and "lookup h (series d) = Some (SeriesArr (c # cs))"
    and "series_count d = int (length (c # cs))"
    and "name c \<noteq> 0" and "lookup h (name c) = Some (MallocChars s)"
  shows "deleteDataframe h df = Inl MemoryFault"
proof -
  have "columns_of h d = Inr (c # cs)"
    using assms(2,3) by (simp add: columns_of_def)
  with assms(1) delete_column_malloc_name [OF assms(4,5)] show ?thesis
    by (simp add: deleteDataframe_def)
qed

section \<open>Releasing a table with an unknown type tag\<close>


lemma column_blocks_unknown_type:
  "type c \<notin> {0, 1, 2, 3} \<Longrightarrow> column_blocks h c = Some [name c]"
  by (simp add: column_blocks_def buffer_blocks_def)

lemma columns_blocks_member:
  "columns_blocks h cs = Some bs \<Longrightarrow> c \<in> set cs \<Longrightarrow> column_blocks h c = Some b \<Longrightarrow>
   set b \<subseteq> set bs"
proof (induction cs arbitrary: bs)
  case Nil
  then show ?case by simp
next
  case (Cons x cs)
  from Cons.prems(1) obtain b1 b2 where b: "column_blocks h x = Some b1"
      "columns_blocks h cs = Some b2" "bs = b1 @ b2"
    by (auto split: option.splits)
  show ?case
  proof (cases "c = x")
    case True
    with b Cons.prems(3) show ?thesis by auto
  next
    case False
    with Cons.prems(2) have "c \<in> set cs" by simp
    from Cons.IH [OF b(2) this Cons.prems(3)] b(3) show ?thesis by auto
  qed
qed

text \<open>
  Where the release is defined (every block from the allocator its release expects,
  so the names from \<^verbatim>\<open>new char[]\<close>), a column with an unknown tag costs the table
  nothing but the data: \<open>deleteDataframe\<close> returns the store with exactly the blocks
  of \<open>release_order\<close> released, the name of that column, the column array and the
  header among them, and what the data pointer of that column points to is as it
  was unless the table releases it for another reason.
\<close>

lemma deleteDataframe_unknown_type_matched:
  assumes "lookup h df = Some (DataframeObj d)"
    and "lookup h (series d) = Some (SeriesArr columns)"
    and "release_order h df = Some bs" and "distinct bs" and "matched h df bs"
    and "c \<in> set columns" and "type c \<notin> {0, 1, 2, 3}"
  shows "deleteDataframe h df = Inr (dispose h bs)
         \<and> name c \<in> set bs \<and> series d \<in> set bs \<and> df \<in> set bs
         \<and> (\<forall>a. lookup (dispose h bs) a = (if a \<in> set bs then None else lookup h a))
         \<and> (\<forall>a. data c = Some a \<longrightarrow> ptr a \<notin> set bs \<longrightarrow>
                lookup (dispose h bs) (ptr a) = lookup h (ptr a))"
proof -
  from assms(1,2,3) obtain b where b: "columns_blocks h columns = Some b" "bs = b @ [series d, df]"
    by (auto simp: release_order_def split: if_splits)
  from columns_blocks_member [OF b(1) assms(6) column_blocks_unknown_type [OF assms(7)]] b(2)
  have n: "name c \<in> set bs" by simp
  have z: "0 \<notin> set bs" using assms(5) by (rule matched_nonzero)
  have "deleteDataframe h df = Inr (dispose h bs)"
    using assms(3,4,5) by (rule deleteDataframe_dispose)
  with n b(2) z show ?thesis by (simp add: lookup_dispose)
qed

lemma deleteDataframe_leaky_table:
  "deleteDataframe leaky_table 1 = Inr (dispose leaky_table [3, 2, 1])
   \<and> lookup (dispose leaky_table [3, 2, 1]) 4 = Some (DoubleArr [0x3FF0000000000000])"
proof -
  have 3: "release_order leaky_table 1 = Some [3, 2, 1]"
    by (simp add: release_order_def column_blocks_def buffer_blocks_def lookup_def leaky_table_def)
  have 4: "distinct [3, 2, 1 :: nat]" by simp
  have 5: "matched leaky_table 1 [3, 2, 1]"
    by (simp add: matched_def allocated_def lookup_def leaky_table_def)
  have "lookup leaky_table 4 = Some (DoubleArr [0x3FF0000000000000])"
    by (simp add: lookup_def leaky_table_def)
  with deleteDataframe_dispose [OF 3 4 5] matched_nonzero [OF 5] show ?thesis
    by (simp add: lookup_dispose)
qed

section \<open>Building a table\<close>

text \<open>
  What an iteration of the loop of \<open>createDataframe\<close> has built stays as it is under
  later allocations and under the two stores that end the function, since all of it
  lies above the header and the column array.
\<close>

lemma string_blocks_live: "map (lookup h) ps = string_blocks v \<Longrightarrow> p \<in> set ps \<Longrightarrow> live h p"
proof (induction ps arbitrary: v)
  case Nil
  then show ?case by simp
next
  case (Cons q ps)
  then obtain s v' where "v = s # v'" by (cases v) (auto simp: string_blocks_def)
  with Cons show ?case by (auto simp: string_blocks_def live_def)
qed

lemma map_lookup_cong:
  "(\<And>p. p \<in> set ps \<Longrightarrow> lookup h2 p = lookup h p) \<Longrightarrow> map (lookup h2) ps = map (lookup h) ps"
  by (induction ps) simp_all

lemma string_data_preserved:
  assumes b: "string_data h base d v"
    and l: "\<And>a. live h a \<Longrightarrow> base < a \<Longrightarrow> lookup h2 a = lookup h a"
  shows "string_data h2 base d v"
proof (cases d)
  case None
  with b show ?thesis by simp
next
  case d: (Some x)
  show ?thesis
  proof (cases v)
    case None
    with b d show ?thesis by simp
  next
    case (Some w)
    with b d obtain ps where v: "length_a x = int (length w)" "base < ptr x"
        "lookup h (ptr x) = Some (PtrArr ps)" "list_all (\<lambda>p. base < p) ps"
        "map (lookup h) ps = string_blocks w"
      by auto
    from v(2,3) l [of "ptr x"] have 1: "lookup h2 (ptr x) = Some (PtrArr ps)"
      by (simp add: live_def)
    have "map (lookup h2) ps = map (lookup h) ps"
    proof (rule map_lookup_cong)
      fix p assume p: "p \<in> set ps"
      with v(4) have "base < p" by (simp add: list_all_iff)
      moreover from v(5) p have "live h p" by (rule string_blocks_live)
      ultimately show "lookup h2 p = lookup h p" using l by simp
    qed
    with d Some v 1 show ?thesis by simp
  qed
qed

lemma flat_data_preserved:
  assumes b: "flat_data h base d blk n"
    and l: "\<And>a. live h a \<Longrightarrow> base < a \<Longrightarrow> lookup h2 a = lookup h a"
  shows "flat_data h2 base d blk n"
proof (cases d)
  case None
  with b show ?thesis by simp
next
  case d: (Some x)
  show ?thesis
  proof (cases blk)
    case None
    with b d show ?thesis by simp
  next
    case (Some w)
    with b d have v: "length_a x = int n" "base < ptr x" "lookup h (ptr x) = Some w"
      by auto
    from v(2,3) l [of "ptr x"] have "lookup h2 (ptr x) = Some w"
      by (simp add: live_def)
    with d Some v show ?thesis by simp
  qed
qed

lemma built_data_preserved:
  assumes "built_data h base d t pl"
    and "\<And>a. live h a \<Longrightarrow> base < a \<Longrightarrow> lookup h2 a = lookup h a"
  shows "built_data h2 base d t pl"
  using assms unfolding built_data_def
  by (auto intro: string_data_preserved flat_data_preserved)

lemma built_column_preserved:
  assumes b: "built_column h base c nm t ix pl"
    and l: "\<And>a. live h a \<Longrightarrow> base < a \<Longrightarrow> lookup h2 a = lookup h a"
  shows "built_column h2 base c nm t ix pl"
proof -
  from b have n: "base < name c" "lookup h (name c) = Some (MallocChars (c_str nm @ [NUL]))"
      "index c = (if ix then 1 else 0)" "type c = t" "built_data h base (data c) t pl"
    by (simp_all add: built_column_def)
  from n(1,2) l [of "name c"] have n2: "lookup h2 (name c) = Some (MallocChars (c_str nm @ [NUL]))"
    by (simp add: live_def)
  from built_data_preserved [OF n(5) l] n n2 show ?thesis
    by (simp add: built_column_def)
qed

lemma string_data_base: "string_data h base d v \<Longrightarrow> base' \<le> base \<Longrightarrow> string_data h base' d v"
  by (cases d; cases v) (fastforce simp: list_all_iff)+

lemma flat_data_base: "flat_data h base d b n \<Longrightarrow> base' \<le> base \<Longrightarrow> flat_data h base' d b n"
  by (cases d; cases b) auto

lemma built_data_base: "built_data h base d t pl \<Longrightarrow> base' \<le> base \<Longrightarrow> built_data h base' d t pl"
  unfolding built_data_def by (auto intro: string_data_base flat_data_base)

lemma built_column_base:
  "built_column h base c nm t ix pl \<Longrightarrow> base' \<le> base \<Longrightarrow> built_column h base' c nm t ix pl"
  unfolding built_column_def by (auto intro: built_data_base)

lemma built_column_grow:
  assumes "built_column h base c nm t ix pl"
  shows "built_column (grow h bs) base c nm t ix pl"
  using assms by (rule built_column_preserved) (rule lookup_grow_live)

lemma lookup_grow_first: "lookup (grow h (b # bs)) (Suc (length (cells h))) = b"
  using lookup_grow_new [of 0 "b # bs" h] by simp

lemma lookup_grow_last:
  "lookup (grow h (xs @ [b])) (Suc (length (cells h) + length xs)) = b"
  using lookup_grow_new [of "length xs" "xs @ [b]" h] by simp

lemma map_lookup_fresh:
  "map (lookup (grow h (xs @ ys))) (fresh_addrs h (length xs)) = xs"
proof (rule nth_equalityI)
  show "length (map (lookup (grow h (xs @ ys))) (fresh_addrs h (length xs))) = length xs"
    by simp
next
  fix i assume "i < length (map (lookup (grow h (xs @ ys))) (fresh_addrs h (length xs)))"
  then have i: "i < length xs" by simp
  then have "lookup (grow h (xs @ ys)) (Suc (length (cells h) + i)) = (xs @ ys) ! i"
    by (intro lookup_grow_new) simp
  with i show "map (lookup (grow h (xs @ ys))) (fresh_addrs h (length xs)) ! i = xs ! i"
    by (simp add: nth_fresh_addrs nth_append)
qed

lemma fresh_addrs_above: "list_all (\<lambda>p. length (cells h) < p) (fresh_addrs h k)"
  by (simp add: list_all_iff set_fresh_addrs)

lemma column_data_built:
  assumes "column_converts cv ct ii i"
  shows "\<exists>bs d. column_data h cv i (ct ! i) = Inr (grow h bs, d)
           \<and> built_data (grow h bs) (length (cells h)) d (ct ! i) (cv ! i)"
proof (cases "ct ! i = 0")
  case True
  with assms obtain v where v: "i < length cv" "as_vector_string (cv ! i) = Some v"
    by (auto simp: column_converts_def)
  let ?bs = "string_blocks v @ [Some (PtrArr (fresh_addrs h (length v)))]"
  let ?d = "Some \<lparr>length_a = int (length v), ptr = Suc (length (cells h) + length v)\<rparr>"
  have 1: "column_data h cv i (ct ! i) = Inr (grow h ?bs, ?d)"
    using True v by (simp add: column_data_def copyVectorStringToCharPtrPtr_grow)
  have 2: "lookup (grow h ?bs) (Suc (length (cells h) + length v))
             = Some (PtrArr (fresh_addrs h (length v)))"
    using lookup_grow_last [of h "string_blocks v"] by simp
  have 3: "map (lookup (grow h ?bs)) (fresh_addrs h (length v)) = string_blocks v"
    using map_lookup_fresh [of h "string_blocks v"] by simp
  have "built_data (grow h ?bs) (length (cells h)) ?d (ct ! i) (cv ! i)"
    using True v 2 3 by (simp add: built_data_def fresh_addrs_above)
  with 1 show ?thesis by blast
next
  case f0: False
  show ?thesis
  proof (cases "ct ! i = 1")
    case True
    with assms obtain v where v: "i < length cv" "as_vector_double (cv ! i) = Some v"
      by (auto simp: column_converts_def)
    let ?bs = "[Some (DoubleArr v)]"
    let ?d = "Some \<lparr>length_a = int (length v), ptr = Suc (length (cells h))\<rparr>"
    have 1: "column_data h cv i (ct ! i) = Inr (grow h ?bs, ?d)"
      using True v by (simp add: column_data_def copyVectorDouble_def alloc_grow)
    have "built_data (grow h ?bs) (length (cells h)) ?d (ct ! i) (cv ! i)"
      using True v by (simp add: built_data_def lookup_grow_first)
    with 1 show ?thesis by blast
  next
    case f1: False
    show ?thesis
    proof (cases "ct ! i = 2 \<or> ct ! i = 3")
      case True
      with assms f0 f1 obtain v where v: "i < length cv" "as_vector_int (cv ! i) = Some v"
        by (auto simp: column_converts_def)
      let ?bs = "[Some (IntArr v)]"
      let ?d = "Some \<lparr>length_a = int (length v), ptr = Suc (length (cells h))\<rparr>"
      have 1: "column_data h cv i (ct ! i) = Inr (grow h ?bs, ?d)"
        using True f0 f1 v by (auto simp: column_data_def copyVectorInt_def alloc_grow)
      have "built_data (grow h ?bs) (length (cells h)) ?d (ct ! i) (cv ! i)"
        using True f0 f1 v by (auto simp: built_data_def lookup_grow_first)
      with 1 show ?thesis by blast
    next
      case False
      with f0 f1 have 1: "column_data h cv i (ct ! i) = Inr (grow h [], None)"
        by (simp add: column_data_def)
      have "built_data (grow h []) (length (cells h)) None (ct ! i) (cv ! i)"
        using False f0 f1 by (simp add: built_data_def)
      with 1 show ?thesis by blast
    qed
  qed
qed

lemma create_column_built:
  assumes "column_converts cv ct ii i"
  shows "\<exists>bs c. create_column h cv nm ct ii i = Inr (grow h bs, c)
           \<and> built_column (grow h bs) (length (cells h)) c nm (ct ! i) (ii ! i) (cv ! i)"
proof -
  let ?nb = "Some (MallocChars (c_str nm @ [NUL]))"
  let ?h1 = "grow h [?nb]"
  let ?n = "length (cells h)"
  from assms have r: "i < length ii" "i < length ct" by (simp_all add: column_converts_def)
  from column_data_built [OF assms, of ?h1] obtain bs d
    where d: "column_data ?h1 cv i (ct ! i) = Inr (grow ?h1 bs, d)"
      "built_data (grow ?h1 bs) (length (cells ?h1)) d (ct ! i) (cv ! i)"
    by blast
  let ?c = "\<lparr>name = Suc ?n, index = (if ii ! i then 1 else 0), type = ct ! i, data = d\<rparr>"
  have 1: "create_column h cv nm ct ii i = Inr (grow ?h1 bs, ?c)"
    using r d(1) by (simp add: create_column_def strdup_def alloc_grow)
  have "lookup (grow ?h1 bs) (Suc ?n) = lookup ?h1 (Suc ?n)"
    by (rule lookup_grow_old) simp
  then have 2: "lookup (grow ?h1 bs) (Suc ?n) = ?nb"
    by (simp add: lookup_grow_first)
  have 3: "built_data (grow ?h1 bs) ?n d (ct ! i) (cv ! i)"
    using d(2) by (rule built_data_base) simp
  have "built_column (grow ?h1 bs) ?n ?c nm (ct ! i) (ii ! i) (cv ! i)"
    using 2 3 by (simp add: built_column_def)
  with 1 have "create_column h cv nm ct ii i = Inr (grow h (?nb # bs), ?c)
      \<and> built_column (grow h (?nb # bs)) ?n ?c nm (ct ! i) (ii ! i) (cv ! i)"
    by (simp add: grow_grow)
  then show ?thesis by blast
qed

lemma create_columns_built:
  "(\<And>j. j < length names \<Longrightarrow> column_converts cv ct ii (i + j)) \<Longrightarrow>
   \<exists>bs cols. create_columns h cv names ct ii i = Inr (grow h bs, cols)
     \<and> length cols = length names
     \<and> (\<forall>j<length names.
           built_column (grow h bs) (length (cells h)) (cols ! j) (names ! j)
             (ct ! (i + j)) (ii ! (i + j)) (cv ! (i + j)))"
proof (induction names arbitrary: h i)
  case Nil
  have "create_columns h cv [] ct ii i = Inr (grow h [], [])" by simp
  then show ?case by (intro exI [of _ "[]"]) simp
next
  case (Cons nm names)
  from Cons.prems [of 0] have "column_converts cv ct ii i" by simp
  from create_column_built [OF this, of h nm] obtain b1 c
    where c: "create_column h cv nm ct ii i = Inr (grow h b1, c)"
      "built_column (grow h b1) (length (cells h)) c nm (ct ! i) (ii ! i) (cv ! i)"
    by blast
  have "\<And>j. j < length names \<Longrightarrow> column_converts cv ct ii (Suc i + j)"
    using Cons.prems [of "Suc j" for j] by simp
  from Cons.IH [OF this, of "grow h b1"] obtain b2 cols
    where r: "create_columns (grow h b1) cv names ct ii (Suc i) = Inr (grow (grow h b1) b2, cols)"
      "length cols = length names"
      "\<forall>j<length names.
           built_column (grow (grow h b1) b2) (length (cells (grow h b1))) (cols ! j) (names ! j)
             (ct ! (Suc i + j)) (ii ! (Suc i + j)) (cv ! (Suc i + j))"
    by blast
  let ?h2 = "grow h (b1 @ b2)"
  have 1: "create_columns h cv (nm # names) ct ii i = Inr (?h2, c # cols)"
    using c(1) r(1) by (simp add: grow_grow)
  have 2: "built_column ?h2 (length (cells h)) ((c # cols) ! j) ((nm # names) ! j)
             (ct ! (i + j)) (ii ! (i + j)) (cv ! (i + j))" if j: "j < length (nm # names)" for j
  proof (cases j)
    case 0
    from built_column_grow [OF c(2), of b2] 0 show ?thesis by (simp add: grow_grow)
  next
    case (Suc k)
    with j r(3) have "built_column (grow (grow h b1) b2) (length (cells (grow h b1))) (cols ! k)
        (names ! k) (ct ! (Suc i + k)) (ii ! (Suc i + k)) (cv ! (Suc i + k))"
      by simp
    then have "built_column (grow (grow h b1) b2) (length (cells h)) (cols ! k)
        (names ! k) (ct ! (Suc i + k)) (ii ! (Suc i + k)) (cv ! (Suc i + k))"
      by (rule built_column_base) simp
    with Suc show ?thesis by (simp add: grow_grow)
  qed
  from 1 2 r(2) show ?case
    by (intro exI [of _ "b1 @ b2"] exI [of _ "c # cols"]) simp
qed

lemma cells_put_take: "n < a \<Longrightarrow> take n (cells (put h a b)) = take n (cells h)"
  by (simp add: put_def)

lemma createDataframe_built:
  assumes conv: "\<And>j. j < length names \<Longrightarrow> column_converts cv ct ii j"
  shows "\<exists>h' cols.
     createDataframe h cv names ct ii = Inr (h', Suc (length (cells h)))
     \<and> lookup h' (Suc (length (cells h))) =
         Some (DataframeObj \<lparr>series = Suc (Suc (length (cells h))),
                             series_count = int (length names)\<rparr>)
     \<and> lookup h' (Suc (Suc (length (cells h)))) = Some (SeriesArr cols)
     \<and> length cols = length names
     \<and> freed h' = freed h
     \<and> take (length (cells h)) (cells h') = cells h
     \<and> (\<forall>j<length names.
           built_column h' (Suc (Suc (length (cells h)))) (cols ! j) (names ! j)
             (ct ! j) (ii ! j) (cv ! j))"
proof -
  let ?n = "length (cells h)"
  let ?h1 = "grow h [Some (DataframeObj \<lparr>series = 0, series_count = 0\<rparr>)]"
  let ?h2 = "grow ?h1 [Some Uninit]"
  have n2: "length (cells ?h2) = Suc (Suc ?n)" by simp
  from conv have "\<And>j. j < length names \<Longrightarrow> column_converts cv ct ii (0 + j)" by simp
  from create_columns_built [OF this, of names ?h2] obtain bs cols
    where r: "create_columns ?h2 cv names ct ii 0 = Inr (grow ?h2 bs, cols)"
      "length cols = length names"
      "\<forall>j<length names. built_column (grow ?h2 bs) (length (cells ?h2)) (cols ! j) (names ! j)
             (ct ! j) (ii ! j) (cv ! j)"
    by auto
  let ?h3 = "grow ?h2 bs"
  let ?h4 = "put ?h3 (Suc (Suc ?n)) (SeriesArr cols)"
  let ?hdr = "DataframeObj \<lparr>series = Suc (Suc ?n), series_count = int (length names)\<rparr>"
  let ?h5 = "put ?h4 (Suc ?n) ?hdr"
  have "lookup ?h3 (Suc (Suc ?n)) = lookup ?h2 (Suc (Suc ?n))"
    by (rule lookup_grow_old) simp
  also have "\<dots> = Some Uninit"
    using lookup_grow_first [of ?h1 "Some Uninit" "[]"] by simp
  finally have l3: "live ?h3 (Suc (Suc ?n))" by (simp add: live_def)
  have "lookup ?h3 (Suc ?n) = lookup ?h2 (Suc ?n)"
    by (rule lookup_grow_old) simp
  also have "\<dots> = lookup ?h1 (Suc ?n)"
    by (rule lookup_grow_old) simp
  also have "\<dots> = Some (DataframeObj \<lparr>series = 0, series_count = 0\<rparr>)"
    by (rule lookup_grow_first)
  finally have "live ?h3 (Suc ?n)" by (simp add: live_def)
  then have l4: "live ?h4 (Suc ?n)" by (simp add: live_put [OF l3])
  have c: "createDataframe h cv names ct ii = Inr (?h5, Suc ?n)"
    using r(1) by (simp add: createDataframe_def alloc_grow store_live [OF l3] store_live [OF l4])
  have 1: "lookup ?h5 (Suc ?n) = Some ?hdr"
    by (simp add: lookup_put [OF l4])
  have 2: "lookup ?h5 (Suc (Suc ?n)) = Some (SeriesArr cols)"
    by (simp add: lookup_put [OF l4] lookup_put [OF l3])
  have 3: "freed ?h5 = freed h" by simp
  have "take ?n (cells ?h5) = take ?n (cells ?h3)"
    by (simp add: cells_put_take)
  then have 4: "take ?n (cells ?h5) = cells h" by simp
  have 5: "built_column ?h5 (Suc (Suc ?n)) (cols ! j) (names ! j) (ct ! j) (ii ! j) (cv ! j)"
    if j: "j < length names" for j
  proof -
    from r(3) j have "built_column ?h3 (Suc (Suc ?n)) (cols ! j) (names ! j) (ct ! j) (ii ! j) (cv ! j)"
      by simp
    then show ?thesis
      by (rule built_column_preserved) (simp add: lookup_put [OF l4] lookup_put [OF l3])
  qed
  from c 1 2 3 4 5 r(2) show ?thesis
    by (intro exI [of _ ?h5] exI [of _ cols]) simp
qed

lemma built_column_name:
  "built_column h base c nm t ix pl \<Longrightarrow> read_c_string h (name c) = Inr (c_str nm)"
  by (simp add: built_column_def read_c_string_def)

lemma read_c_strings_nth:
  "length ps = length ss \<Longrightarrow> (\<And>j. j < length ps \<Longrightarrow> read_c_string h (ps ! j) = Inr (ss ! j)) \<Longrightarrow>
   read_c_strings h ps = Inr ss"
proof (induction ps arbitrary: ss)
  case Nil
  then show ?case by simp
next
  case (Cons p ps)
  then obtain s ss' where s: "ss = s # ss'" by (cases ss) auto
  from Cons.prems(2) [of 0] s have 1: "read_c_string h p = Inr s" by simp
  have "read_c_strings h ps = Inr ss'"
  proof (rule Cons.IH)
    show "length ps = length ss'" using Cons.prems(1) s by simp
  next
    fix j assume "j < length ps"
    with Cons.prems(2) [of "Suc j"] s show "read_c_string h (ps ! j) = Inr (ss' ! j)" by simp
  qed
  with 1 s show ?case by simp
qed

text \<open>
  C9, as the code has it. \<open>createDataframe\<close> does not look at the column names: when
  the values of every column convert to the vector type its tag selects, it returns
  a table with one column per spec, in input order. Column \<open>j\<close> is built from spec
  \<open>j\<close>: its name storage holds the C string of name \<open>j\<close> as given, the empty name
  included; its type tag is tag \<open>j\<close>; its index field is flag \<open>j\<close>; its data field
  points at a new buffer that holds the converted values of spec \<open>j\<close> and has their
  length (for a tag outside 0..3 it is left unwritten).
\<close>

theorem createDataframe_names:
  assumes "\<forall>j<length columnsNames. column_converts columnsValues columnsTypes isIndex j"
  shows "\<exists>h' df d cols.
     createDataframe h columnsValues columnsNames columnsTypes isIndex = Inr (h', df)
     \<and> lookup h' df = Some (DataframeObj d)
     \<and> series_count d = int (length columnsNames)
     \<and> lookup h' (series d) = Some (SeriesArr cols)
     \<and> length cols = length columnsNames
     \<and> read_c_strings h' (map name cols) = Inr (map c_str columnsNames)
     \<and> map type cols = take (length columnsNames) columnsTypes
     \<and> map index cols = map (\<lambda>b. if b then 1 else 0) (take (length columnsNames) isIndex)
     \<and> (\<forall>j<length columnsNames.
           built_column h' (series d) (cols ! j) (columnsNames ! j)
             (columnsTypes ! j) (isIndex ! j) (columnsValues ! j))"
proof -
  from assms have conv: "\<And>j. j < length columnsNames \<Longrightarrow>
      column_converts columnsValues columnsTypes isIndex j"
    by simp
  from createDataframe_built [OF conv, of columnsNames h] obtain h' cols
    where r: "createDataframe h columnsValues columnsNames columnsTypes isIndex
                = Inr (h', Suc (length (cells h)))"
      "lookup h' (Suc (length (cells h))) =
         Some (DataframeObj \<lparr>series = Suc (Suc (length (cells h))),
                             series_count = int (length columnsNames)\<rparr>)"
      "lookup h' (Suc (Suc (length (cells h)))) = Some (SeriesArr cols)"
      "length cols = length columnsNames"
      "\<forall>j<length columnsNames.
           built_column h' (Suc (Suc (length (cells h)))) (cols ! j) (columnsNames ! j)
             (columnsTypes ! j) (isIndex ! j) (columnsValues ! j)"
    by blast
  have b: "built_column h' (Suc (Suc (length (cells h)))) (cols ! j) (columnsNames ! j)
             (columnsTypes ! j) (isIndex ! j) (columnsValues ! j)"
    if "j < length columnsNames" for j
    using r(5) that by simp
  have len: "length columnsNames \<le> length columnsTypes" "length columnsNames \<le> length isIndex"
  proof -
    have "j < length columnsTypes \<and> j < length isIndex" if "j < length columnsNames" for j
      using conv [OF that] by (simp add: column_converts_def)
    then have *: "\<forall>j<length columnsNames. j < length columnsTypes \<and> j < length isIndex"
      by simp
    show "length columnsNames \<le> length columnsTypes"
    proof (rule ccontr)
      assume "\<not> length columnsNames \<le> length columnsTypes"
      then have "length columnsTypes < length columnsNames" by simp
      with * show False by blast
    qed
    show "length columnsNames \<le> length isIndex"
    proof (rule ccontr)
      assume "\<not> length columnsNames \<le> length isIndex"
      then have "length isIndex < length columnsNames" by simp
      with * show False by blast
    qed
  qed
  have names: "read_c_strings h' (map name cols) = Inr (map c_str columnsNames)"
  proof (rule read_c_strings_nth)
    show "length (map name cols) = length (map c_str columnsNames)" using r(4) by simp
  next
    fix j assume "j < length (map name cols)"
    with r(4) have j: "j < length columnsNames" by simp
    from built_column_name [OF b [OF j]] j r(4)
    show "read_c_string h' (map name cols ! j) = Inr (map c_str columnsNames ! j)"
      by simp
  qed
  have types: "map type cols = take (length columnsNames) columnsTypes"
  proof (rule nth_equalityI)
    show "length (map type cols) = length (take (length columnsNames) columnsTypes)"
      using r(4) len by simp
  next
    fix j assume "j < length (map type cols)"
    with r(4) have j: "j < length columnsNames" by simp
    from b [OF j] have "type (cols ! j) = columnsTypes ! j" by (simp add: built_column_def)
    with j r(4) show "map type cols ! j = take (length columnsNames) columnsTypes ! j" by simp
  qed
  have flags: "map index cols =
      map (\<lambda>b. if b then 1 else 0) (take (length columnsNames) isIndex)"
  proof (rule nth_equalityI)
    show "length (map index cols) =
        length (map (\<lambda>b. if b then 1 else (0::int)) (take (length columnsNames) isIndex))"
      using r(4) len by simp
  next
    fix j assume "j < length (map index cols)"
    with r(4) have j: "j < length columnsNames" by simp
    from b [OF j] have "index (cols ! j) = (if isIndex ! j then 1 else 0)"
      by (simp add: built_column_def)
    with j r(4) len show "map index cols ! j =
        map (\<lambda>b. if b then 1 else 0) (take (length columnsNames) isIndex) ! j"
      by simp
  qed
  from r names types flags show ?thesis
    by (intro exI [of _ h'] exI [of _ "Suc (length (cells h))"]
          exI [of _ "\<lparr>series = Suc (Suc (length (cells h))),
                       series_count = int (length columnsNames)\<rparr>"] exI [of _ cols]) simp
qed

section \<open>Tables with an unknown type tag, with an empty name\<close>

lemma createDataframe_single_unknown:
  assumes "t \<notin> {0, 1, 2, 3}"
  shows "createDataframe h [values] [nm] [t] [ix] =
     Inr (grow h
            [Some (DataframeObj \<lparr>series = Suc (Suc (length (cells h))), series_count = 1\<rparr>),
             Some (SeriesArr [\<lparr>name = Suc (Suc (Suc (length (cells h)))),
                               index = (if ix then 1 else 0), type = t, data = None\<rparr>]),
             Some (MallocChars (c_str nm @ [NUL]))],
          Suc (length (cells h)))"
  using assms
  by (simp add: createDataframe_def create_column_def column_data_def strdup_def alloc_def
        store_def lookup_def nth_append list_update_append grow_def)

text \<open>
  C3. For a column whose type tag is none of 0, 1, 2, 3, \<open>createDataframe\<close> raises
  nothing: it returns a table of three new blocks (header, column array, name) whose
  column carries the tag and a data field that was never written.
\<close>

theorem createDataframe_unknown_type:
  assumes "t \<notin> {0, 1, 2, 3}"
  shows "\<exists>h'. createDataframe h [values] [nm] [t] [ix] = Inr (h', Suc (length (cells h)))
           \<and> cells h' = cells h @
               [Some (DataframeObj \<lparr>series = Suc (Suc (length (cells h))), series_count = 1\<rparr>),
                Some (SeriesArr [\<lparr>name = Suc (Suc (Suc (length (cells h)))),
                                  index = (if ix then 1 else 0), type = t, data = None\<rparr>]),
                Some (MallocChars (c_str nm @ [NUL]))]
           \<and> freed h' = freed h"
  using createDataframe_single_unknown [OF assms, of h "values" nm ix] by simp

theorem createDataframe_unknown_type_witness:
  "\<exists>h'. createDataframe empty_heap [floats [0x3FF0000000000000]] [''x''] [9] [False] = Inr (h', 1)
      \<and> cells h' =
          [Some (DataframeObj \<lparr>series = 2, series_count = 1\<rparr>),
           Some (SeriesArr [\<lparr>name = 3, index = 0, type = 9, data = None\<rparr>]),
           Some (MallocChars (''x'' @ [NUL]))]
      \<and> freed h' = []"
proof -
  have "(9 :: int) \<notin> {0, 1, 2, 3}" by simp
  from createDataframe_unknown_type [OF this, of empty_heap "floats [0x3FF0000000000000]" "''x''" False]
  show ?thesis
    by (simp add: empty_heap_def c_str_def NUL_def numeral_3_eq_3 numeral_2_eq_2)
qed



text \<open>
  C9 as stated fails: a column whose name is empty is assembled into a table.
\<close>

theorem createDataframe_empty_name:
  "createDataframe empty_heap [floats [0x3FF0CCCCCCCCCCCD]] [''''] [1] [False] =
     Inr (\<lparr>cells =
             [Some (DataframeObj \<lparr>series = 2, series_count = 1\<rparr>),
              Some (SeriesArr [\<lparr>name = 3, index = 0, type = 1,
                                data = Some \<lparr>length_a = 1, ptr = 4\<rparr>\<rparr>]),
              Some (MallocChars [NUL]),
              Some (DoubleArr [0x3FF0CCCCCCCCCCCD])],
           freed = []\<rparr>, 1)"
  by (simp add: createDataframe_def create_column_def column_data_def strdup_def alloc_def
        copyVectorDouble_def store_def lookup_def floats_def empty_heap_def c_str_def)

theorem createDataframe_names_witness:
  "\<exists>h' df d cols.
     createDataframe empty_heap example_values ['''', ''v''] [0, 1] [True, False] = Inr (h', df)
     \<and> lookup h' df = Some (DataframeObj d)
     \<and> series_count d = 2
     \<and> lookup h' (series d) = Some (SeriesArr cols)
     \<and> length cols = 2
     \<and> read_c_strings h' (map name cols) = Inr ['''', ''v'']
     \<and> map type cols = [0, 1]
     \<and> map index cols = [1, 0]
     \<and> built_column h' (series d) (cols ! 0) '''' 0 True (example_values ! 0)
     \<and> built_column h' (series d) (cols ! 1) ''v'' 1 False (example_values ! 1)"
proof -
  have c: "\<forall>j<length ['''', ''v'']. column_converts example_values [0, 1] [True, False] j"
    by (simp add: column_converts_def example_values_def less_Suc_eq)
  from createDataframe_names [OF c, of empty_heap] obtain h' df d cols
    where r: "createDataframe empty_heap example_values ['''', ''v''] [0, 1] [True, False]
                = Inr (h', df)"
      "lookup h' df = Some (DataframeObj d)"
      "series_count d = int (length ['''', ''v''])"
      "lookup h' (series d) = Some (SeriesArr cols)"
      "length cols = length ['''', ''v'']"
      "read_c_strings h' (map name cols) = Inr (map c_str ['''', ''v''])"
      "map type cols = take (length ['''', ''v'']) [0, 1]"
      "map index cols = map (\<lambda>b. if b then 1 else 0) (take (length ['''', ''v'']) [True, False])"
      "\<forall>j<length ['''', ''v''].
           built_column h' (series d) (cols ! j) (['''', ''v''] ! j)
             ([0, 1] ! j) ([True, False] ! j) (example_values ! j)"
    by blast
  from r(9) have b: "built_column h' (series d) (cols ! 0) '''' 0 True (example_values ! 0)"
      "built_column h' (series d) (cols ! 1) ''v'' 1 False (example_values ! 1)"
    by (simp_all add: less_Suc_eq)
  have "map c_str ['''', ''v''] = ['''', ''v'']" by (simp add: c_str_def NUL_def)
  with r b show ?thesis
    by (intro exI [of _ h'] exI [of _ df] exI [of _ d] exI [of _ cols]) simp
qed

section \<open>Releasing a table that \<open>createDataframe\<close> built\<close>

text \<open>
  C4. The order of the releases is the one the claim gives (lemma
  \<open>deleteDataframe_dispose\<close>, on tables whose every block came from the allocator its
  release expects). But on a table \<open>createDataframe\<close> built, with at least one
  column, the release never gets that far: each name is storage from \<^verbatim>\<open>strdup\<close>, that
  is from \<^verbatim>\<open>malloc\<close>, and \<open>deleteDataframe\<close> releases it with \<^verbatim>\<open>delete[]\<close>, which is
  undefined behaviour at the first column already.
\<close>

theorem deleteDataframe_strdup_name:
  assumes "\<forall>j<length columnsNames. column_converts columnsValues columnsTypes isIndex j"
    and "columnsNames \<noteq> []"
  shows "\<exists>h' df d c cols.
       createDataframe h columnsValues columnsNames columnsTypes isIndex = Inr (h', df)
     \<and> lookup h' df = Some (DataframeObj d)
     \<and> lookup h' (series d) = Some (SeriesArr (c # cols))
     \<and> lookup h' (name c) = Some (MallocChars (c_str (hd columnsNames) @ [NUL]))
     \<and> delete_column h' c = Inl MemoryFault
     \<and> deleteDataframe h' df = Inl MemoryFault"
proof -
  from assms(1) have conv: "\<And>j. j < length columnsNames \<Longrightarrow>
      column_converts columnsValues columnsTypes isIndex j"
    by simp
  define n where "n = length (cells h)"
  define d where "d = \<lparr>series = Suc (Suc n), series_count = int (length columnsNames)\<rparr>"
  from createDataframe_built [OF conv, of columnsNames h] obtain h' cols
    where r: "createDataframe h columnsValues columnsNames columnsTypes isIndex = Inr (h', Suc n)"
      "lookup h' (Suc n) = Some (DataframeObj d)"
      "lookup h' (Suc (Suc n)) = Some (SeriesArr cols)"
      "length cols = length columnsNames"
      "\<forall>j<length columnsNames.
           built_column h' (Suc (Suc n)) (cols ! j) (columnsNames ! j)
             (columnsTypes ! j) (isIndex ! j) (columnsValues ! j)"
    unfolding n_def d_def by blast
  from assms(2) r(4) obtain c cs where cs: "cols = c # cs" by (cases cols) auto
  from assms(2) have 0: "0 < length columnsNames" "columnsNames ! 0 = hd columnsNames"
    by (simp_all add: hd_conv_nth)
  with r(5) cs have b: "built_column h' (Suc (Suc n)) c (hd columnsNames)
      (columnsTypes ! 0) (isIndex ! 0) (columnsValues ! 0)"
    by auto
  then have nm: "name c \<noteq> 0"
      "lookup h' (name c) = Some (MallocChars (c_str (hd columnsNames) @ [NUL]))"
    by (simp_all add: built_column_def)
  have 1: "delete_column h' c = Inl MemoryFault"
    using nm by (rule delete_column_malloc_name)
  have 2: "deleteDataframe h' (Suc n) = Inl MemoryFault"
    using r(2) _ _ nm
  proof (rule deleteDataframe_malloc_name)
    show "lookup h' (series d) = Some (SeriesArr (c # cs))" using r(3) cs by (simp add: d_def)
    show "series_count d = int (length (c # cs))" using r(4) cs by (simp add: d_def)
  qed
  have 3: "lookup h' (series d) = Some (SeriesArr (c # cs))" using r(3) cs by (simp add: d_def)
  from r(1,2) 3 nm(2) 1 2 show ?thesis
    by (intro exI [of _ h'] exI [of _ "Suc n"] exI [of _ d] exI [of _ c] exI [of _ cs]) simp
qed

theorem deleteDataframe_strdup_name_witness:
  "createDataframe empty_heap example_values [''id'', ''v''] [0, 1] [True, False]
     = Inr (example_table, 1)
   \<and> lookup example_table 3 = Some (MallocChars (''id'' @ [NUL]))
   \<and> deleteDataframe example_table 1 = Inl MemoryFault"
proof -
  have c: "\<forall>j<length [''id'', ''v'']. column_converts example_values [0, 1] [True, False] j"
    by (simp add: column_converts_def example_values_def less_Suc_eq)
  have "[''id'', ''v''] \<noteq> []" by simp
  from deleteDataframe_strdup_name [OF c this, of empty_heap] createDataframe_example
  have "deleteDataframe example_table 1 = Inl MemoryFault" by auto
  moreover have "lookup example_table 3 = Some (MallocChars (''id'' @ [NUL]))"
    by (simp add: lookup_def example_table_def)
  ultimately show ?thesis using createDataframe_example by simp
qed

section \<open>The data property\<close>

text \<open>
  C7. Reading the data property of a series whose type tag is none of 0, 1, 2, 3
  raises \<open>PyPowsyblError\<close> with the message "Series type not supported: " followed by
  the tag, whatever the store and the other fields hold; no object is returned.
\<close>

theorem series_data_unsupported_type:
  assumes "type s \<notin> {0, 1, 2, 3}"
  shows "series_data h s =
           Inl (PyPowsyblError (''Series type not supported: '' @ to_string (type s)))"
  using assms by (simp add: series_data_def)

theorem series_data_unsupported_type_witness:
  "series_data empty_heap \<lparr>name = 0, index = 0, type = 9, data = None\<rparr>
     = Inl (PyPowsyblError ''Series type not supported: 9'')"
  using series_data_unsupported_type [of "\<lparr>name = 0, index = 0, type = 9, data = None\<rparr>" empty_heap]
  by (simp add: to_string_def)

lemma built_column_strings:
  assumes "built_column h base c nm 0 ix pl" and "as_vector_string pl = Some v"
  shows "series_data h c = Inr (PyList (map c_str v))"
proof -
  from assms have t: "type c = 0" and s: "string_data h base (data c) (Some v)"
    by (simp_all add: built_column_def built_data_def)
  from s obtain d where d: "data c = Some d" by (cases "data c") auto
  with s obtain ps where ps: "length_a d = int (length v)" "lookup h (ptr d) = Some (PtrArr ps)"
      "map (lookup h) ps = string_blocks v"
    by auto
  from ps(3) have l: "length ps = length v"
    using length_map [of "lookup h" ps] by simp
  from ps(3) have r: "read_c_strings h ps = Inr (map c_str v)"
    by (rule read_c_strings_blocks)
  have "read_strings h (ptr d) (length_a d) = Inr (map c_str v)"
  proof (cases "v = []")
    case True
    with ps(1) show ?thesis by (simp add: read_strings_def)
  next
    case False
    with ps l r show ?thesis by (simp add: read_strings_def)
  qed
  with t d show ?thesis by (simp add: series_data_def toVector_string_def)
qed

lemma built_column_doubles:
  assumes "built_column h base c nm 1 ix pl" and "as_vector_double pl = Some v"
  shows "\<exists>a. series_data h c = Inr (NdArray a) \<and> contents e h (NdArray a) = Inr (Floats v)"
proof -
  from assms have t: "type c = 1"
    and s: "flat_data h base (data c) (Some (DoubleArr v)) (length v)"
    by (simp_all add: built_column_def built_data_def)
  from s obtain d where d: "data c = Some d" by (cases "data c") auto
  with s have ps: "length_a d = int (length v)" "lookup h (ptr d) = Some (DoubleArr v)"
    by auto
  let ?a = "\<lparr>nd_dtype = Float64, nd_shape = length_a d, nd_ptr = ptr d, nd_base = c\<rparr>"
  have 1: "series_data h c = Inr (NdArray ?a)"
    using t d by (simp add: series_data_def seriesAsNumpyArray_def)
  have 2: "contents e h (NdArray ?a) = Inr (Floats v)"
    using ps by (simp add: contents_def)
  from 1 2 show ?thesis by blast
qed

lemma built_column_ints:
  assumes "built_column h base c nm 2 ix pl" and "as_vector_int pl = Some v"
  shows "\<exists>a. series_data h c = Inr (NdArray a) \<and> contents e h (NdArray a) = Inr (Ints v)"
proof -
  from assms have t: "type c = 2"
    and s: "flat_data h base (data c) (Some (IntArr v)) (length v)"
    by (simp_all add: built_column_def built_data_def)
  from s obtain d where d: "data c = Some d" by (cases "data c") auto
  with s have ps: "length_a d = int (length v)" "lookup h (ptr d) = Some (IntArr v)"
    by auto
  let ?a = "\<lparr>nd_dtype = Int32, nd_shape = length_a d, nd_ptr = ptr d, nd_base = c\<rparr>"
  have 1: "series_data h c = Inr (NdArray ?a)"
    using t d by (simp add: series_data_def seriesAsNumpyArray_def)
  have 2: "contents e h (NdArray ?a) = Inr (Ints v)"
    using ps by (simp add: contents_def)
  from 1 2 show ?thesis by blast
qed

text \<open>
  C1, as the code has it. A column's values reach \<open>createDataframe\<close> through the
  conversion of the Python list to a vector of the column's element type
  (\<open>as_vector_string\<close>, \<open>as_vector_double\<close>, \<open>as_vector_int\<close>); what that conversion
  does to a value that is not of the element type (an integer above two to the power 53 given to a
  column of doubles, say) is the conversion's own affair, and the round trip is
  stated of the vector \<open>v\<close> it yields, not of the Python values before it. Whenever
  the values of every column convert, \<open>createDataframe\<close> returns a table, and for
  each of its columns: with tag 0, if no string of \<open>v\<close> holds a NUL character, the data
  property gives a list of exactly the strings of \<open>v\<close>, an object that holds no native
  address, so that its contents are the same in every store; with tag 1 the data
  property gives an array whose contents in the store are exactly the doubles of
  \<open>v\<close>; with tag 2 likewise for the ints of \<open>v\<close>. Tag 3 is left out.
\<close>

theorem series_data_roundtrip:
  assumes "\<forall>j<length columnsNames. column_converts columnsValues columnsTypes isIndex j"
    and "i < length columnsNames"
  shows "\<exists>h' df d cols.
     createDataframe h columnsValues columnsNames columnsTypes isIndex = Inr (h', df)
     \<and> lookup h' df = Some (DataframeObj d)
     \<and> lookup h' (series d) = Some (SeriesArr cols)
     \<and> i < length cols
     \<and> (\<forall>v. columnsTypes ! i = 0 \<longrightarrow> as_vector_string (columnsValues ! i) = Some v \<longrightarrow>
              (\<forall>s\<in>set v. NUL \<notin> set s) \<longrightarrow>
              series_data h' (cols ! i) = Inr (PyList v)
              \<and> (\<forall>h0. contents e h0 (PyList v) = Inr (Strings v)))
     \<and> (\<forall>v. columnsTypes ! i = 1 \<longrightarrow> as_vector_double (columnsValues ! i) = Some v \<longrightarrow>
              (\<exists>a. series_data h' (cols ! i) = Inr (NdArray a)
                   \<and> contents e h' (NdArray a) = Inr (Floats v)))
     \<and> (\<forall>v. columnsTypes ! i = 2 \<longrightarrow> as_vector_int (columnsValues ! i) = Some v \<longrightarrow>
              (\<exists>a. series_data h' (cols ! i) = Inr (NdArray a)
                   \<and> contents e h' (NdArray a) = Inr (Ints v)))"
proof -
  from assms(1) have "\<And>j. j < length columnsNames \<Longrightarrow>
      column_converts columnsValues columnsTypes isIndex j"
    by simp
  from createDataframe_built [OF this, of columnsNames h] obtain h' cols
    where r: "createDataframe h columnsValues columnsNames columnsTypes isIndex
                = Inr (h', Suc (length (cells h)))"
      "lookup h' (Suc (length (cells h))) =
         Some (DataframeObj \<lparr>series = Suc (Suc (length (cells h))),
                             series_count = int (length columnsNames)\<rparr>)"
      "lookup h' (Suc (Suc (length (cells h)))) = Some (SeriesArr cols)"
      "length cols = length columnsNames"
      "\<forall>j<length columnsNames.
           built_column h' (Suc (Suc (length (cells h)))) (cols ! j) (columnsNames ! j)
             (columnsTypes ! j) (isIndex ! j) (columnsValues ! j)"
    by blast
  from r(5) assms(2)
  have b: "built_column h' (Suc (Suc (length (cells h)))) (cols ! i) (columnsNames ! i)
             (columnsTypes ! i) (isIndex ! i) (columnsValues ! i)"
    by simp
  have s: "series_data h' (cols ! i) = Inr (PyList v)
           \<and> (\<forall>h0. contents e h0 (PyList v) = Inr (Strings v))"
    if "columnsTypes ! i = 0" "as_vector_string (columnsValues ! i) = Some v"
      "\<forall>s\<in>set v. NUL \<notin> set s" for v
  proof -
    from that(3) have "map c_str v = v" by (simp add: c_str_id map_idI)
    with built_column_strings [of h' _ "cols ! i" _ _ "columnsValues ! i" v] b that(1,2)
    show ?thesis by (simp add: contents_def)
  qed
  have f: "\<exists>a. series_data h' (cols ! i) = Inr (NdArray a)
               \<and> contents e h' (NdArray a) = Inr (Floats v)"
    if "columnsTypes ! i = 1" "as_vector_double (columnsValues ! i) = Some v" for v
    using built_column_doubles [of h' _ "cols ! i" _ _ "columnsValues ! i" v e] b that by simp
  have n: "\<exists>a. series_data h' (cols ! i) = Inr (NdArray a)
               \<and> contents e h' (NdArray a) = Inr (Ints v)"
    if "columnsTypes ! i = 2" "as_vector_int (columnsValues ! i) = Some v" for v
    using built_column_ints [of h' _ "cols ! i" _ _ "columnsValues ! i" v e] b that by simp
  from r(1,2,3,4) assms(2) s f n show ?thesis
    by (intro exI [of _ h'] exI [of _ "Suc (length (cells h))"]
          exI [of _ "\<lparr>series = Suc (Suc (length (cells h))),
                       series_count = int (length columnsNames)\<rparr>"] exI [of _ cols]) simp
qed

lemma int_bytes_0: "int_bytes e 0 = [0, 0, 0, 0]"
  by (cases e) (simp_all add: int_bytes_def)

lemma int_bytes_1: "int_bytes e 1 = (case e of LittleEndian \<Rightarrow> [1, 0, 0, 0] | BigEndian \<Rightarrow> [0, 0, 0, 1])"
  by (cases e) (simp_all add: int_bytes_def drop_bit_eq_div)

text \<open>
  C1 as stated fails in two places. A column of bools is stored as one 4-byte int per
  value and read back as one byte per value: the view of \<open>[False, True]\<close> is
  \<open>[False, False]\<close> on either byte order. A string is stored as a C string: the view
  of a string with a NUL character in it ends before that character.
\<close>

theorem series_data_roundtrip_fails:
  "createDataframe empty_heap [ints (bools_as_ints [False, True])] [''b''] [3] [False]
     = Inr (bool_table, 1)
   \<and> lookup bool_table 1 = Some (DataframeObj \<lparr>series = 2, series_count = 1\<rparr>)
   \<and> lookup bool_table 2 = Some (SeriesArr [bool_column])
   \<and> series_data bool_table bool_column
       = Inr (NdArray \<lparr>nd_dtype = Bool8, nd_shape = 2, nd_ptr = 4, nd_base = bool_column\<rparr>)
   \<and> contents LittleEndian bool_table
         (NdArray \<lparr>nd_dtype = Bool8, nd_shape = 2, nd_ptr = 4, nd_base = bool_column\<rparr>)
       = Inr (Bools [False, False])
   \<and> contents BigEndian bool_table
         (NdArray \<lparr>nd_dtype = Bool8, nd_shape = 2, nd_ptr = 4, nd_base = bool_column\<rparr>)
       = Inr (Bools [False, False])
   \<and> createDataframe empty_heap [strings [''a'' @ [NUL] @ ''b'']] [''s''] [0] [True]
       = Inr (nul_table, 1)
   \<and> lookup nul_table 2 = Some (SeriesArr [nul_column])
   \<and> series_data nul_table nul_column = Inr (PyList [''a''])"
proof -
  have 1: "createDataframe empty_heap [ints (bools_as_ints [False, True])] [''b''] [3] [False]
     = Inr (bool_table, 1)"
    by (simp add: createDataframe_def create_column_def column_data_def strdup_def alloc_def
        copyVectorInt_def store_def lookup_def ints_def bools_as_ints_def empty_heap_def
        c_str_def NUL_def bool_table_def bool_column_def)
  have 2: "lookup bool_table 1 = Some (DataframeObj \<lparr>series = 2, series_count = 1\<rparr>)"
    "lookup bool_table 2 = Some (SeriesArr [bool_column])"
    by (simp_all add: lookup_def bool_table_def)
  have 3: "series_data bool_table bool_column
       = Inr (NdArray \<lparr>nd_dtype = Bool8, nd_shape = 2, nd_ptr = 4, nd_base = bool_column\<rparr>)"
    by (simp add: series_data_def seriesAsNumpyArray_def bool_column_def)
  have 4: "lookup bool_table 4 = Some (IntArr [0, 1])"
    by (simp add: lookup_def bool_table_def)
  have 5: "contents e bool_table
         (NdArray \<lparr>nd_dtype = Bool8, nd_shape = 2, nd_ptr = 4, nd_base = bool_column\<rparr>)
       = Inr (Bools [False, False])" for e
    by (cases e) (simp_all add: contents_def 4 int_bytes_0 int_bytes_1)
  have 6: "createDataframe empty_heap [strings [''a'' @ [NUL] @ ''b'']] [''s''] [0] [True]
       = Inr (nul_table, 1)"
    by (simp add: createDataframe_def create_column_def column_data_def strdup_def alloc_def
        copyVectorStringToCharPtrPtr_def store_def lookup_def strings_def empty_heap_def
        c_str_def NUL_def nul_table_def nul_column_def)
  have 7: "lookup nul_table 2 = Some (SeriesArr [nul_column])"
    by (simp add: lookup_def nul_table_def)
  have 8: "series_data nul_table nul_column = Inr (PyList [''a''])"
    by (simp add: series_data_def toVector_string_def read_strings_def read_c_string_def
        lookup_def nul_table_def nul_column_def c_str_def NUL_def)
  from 1 2 3 5 6 7 8 show ?thesis by simp
qed

theorem series_data_roundtrip_witness:
  "\<exists>h' df d cols.
     createDataframe empty_heap example_values [''id'', ''v''] [0, 1] [True, False] = Inr (h', df)
     \<and> lookup h' df = Some (DataframeObj d)
     \<and> lookup h' (series d) = Some (SeriesArr cols)
     \<and> series_data h' (cols ! 0) = Inr (PyList [''B1'', ''B2''])
     \<and> (\<exists>a. series_data h' (cols ! 1) = Inr (NdArray a)
            \<and> contents LittleEndian h' (NdArray a)
                = Inr (Floats [0x3FF0CCCCCCCCCCCD, 0x3FEF5C28F5C28F5C]))"
proof -
  have c: "\<forall>j<length [''id'', ''v'']. column_converts example_values [0, 1] [True, False] j"
    by (simp add: column_converts_def example_values_def less_Suc_eq)
  have s: "as_vector_string (example_values ! 0) = Some [''B1'', ''B2'']"
    "as_vector_double (example_values ! 1) = Some [0x3FF0CCCCCCCCCCCD, 0x3FEF5C28F5C28F5C]"
    by (simp_all add: example_values_def)
  have n: "\<forall>s\<in>set [''B1'', ''B2'']. NUL \<notin> set s" by (simp add: NUL_def)
  from series_data_roundtrip [OF c, of 0 empty_heap LittleEndian] s(1) n
  obtain h' df d cols
    where 1: "createDataframe empty_heap example_values [''id'', ''v''] [0, 1] [True, False]
                = Inr (h', df)"
      "lookup h' df = Some (DataframeObj d)" "lookup h' (series d) = Some (SeriesArr cols)"
      "series_data h' (cols ! 0) = Inr (PyList [''B1'', ''B2''])"
    by auto
  from series_data_roundtrip [OF c, of 1 empty_heap LittleEndian] s(2)
  obtain h2 df2 d2 cols2 a
    where 2: "createDataframe empty_heap example_values [''id'', ''v''] [0, 1] [True, False]
                = Inr (h2, df2)"
      "lookup h2 df2 = Some (DataframeObj d2)" "lookup h2 (series d2) = Some (SeriesArr cols2)"
      "series_data h2 (cols2 ! 1) = Inr (NdArray a)"
      "contents LittleEndian h2 (NdArray a)
         = Inr (Floats [0x3FF0CCCCCCCCCCCD, 0x3FEF5C28F5C28F5C])"
    by auto
  from 1(1) 2(1) have "h2 = h'" "df2 = df" by simp_all
  with 1(2,3) 2(2,3) have "d2 = d" "cols2 = cols" by simp_all
  with 1 2 \<open>h2 = h'\<close> show ?thesis by blast
qed

section \<open>Isolation of the country list\<close>

lemma params_blocks_cong:
  assumes "params_blocks h p = Some bs" and "\<And>a. a \<in> set bs \<Longrightarrow> lookup h2 a = lookup h a"
  shows "params_blocks h2 p = Some bs \<and> get_countries_to_balance h2 p = get_countries_to_balance h p"
proof -
  from assms(1) obtain s ps where s: "lookup h p = Some (LoadFlowParametersObj s)"
      "lookup h (countries_to_balance s) = Some (PtrArr ps)"
      "countries_to_balance_count s = int (length ps)" "bs = ps @ [countries_to_balance s, p]"
    by (auto simp: params_blocks_def split: option.splits block.splits if_splits)
  from s(4) assms(2) have l: "lookup h2 p = lookup h p"
      "lookup h2 (countries_to_balance s) = lookup h (countries_to_balance s)"
      "\<And>a. a \<in> set ps \<Longrightarrow> lookup h2 a = lookup h a"
    by simp_all
  have "read_c_strings h2 (take n ps) = read_c_strings h (take n ps)" for n
    by (rule read_c_strings_cong) (auto dest: in_set_takeD l(3))
  then have "read_strings h2 (countries_to_balance s) (countries_to_balance_count s)
      = read_strings h (countries_to_balance s) (countries_to_balance_count s)"
    by (simp add: read_strings_def l(2) s(2))
  with s l(1,2) show ?thesis
    by (simp add: params_blocks_def get_countries_to_balance_def)
qed

lemma live_preserved: "live h a \<Longrightarrow> lookup h2 a = lookup h a \<Longrightarrow> live h2 a"
  by (simp add: live_def)

lemma allocated_preserved:
  "allocated h al a \<Longrightarrow> lookup h2 a = lookup h a \<Longrightarrow> allocated h2 al a"
  by (simp add: allocated_def)

lemma string_blocks_allocated:
  "map (lookup h) ps = string_blocks v \<Longrightarrow> p \<in> set ps \<Longrightarrow> allocated h NewArray p"
proof (induction ps arbitrary: v)
  case Nil
  then show ?case by simp
next
  case (Cons q ps)
  then obtain s v' where "v = s # v'" by (cases v) (auto simp: string_blocks_def)
  with Cons show ?case by (auto simp: string_blocks_def allocated_def)
qed

lemma initLoadFlowParameters_copy:
  assumes "get_countries_to_balance h config = Inr cs"
  shows "\<exists>h1 bs.
      initLoadFlowParameters h config = Inr (h1, Suc (length (cells h)))
    \<and> (\<forall>a. a \<le> length (cells h) \<longrightarrow> lookup h1 a = lookup h a)
    \<and> freed h1 = freed h
    \<and> length (cells h) \<le> length (cells h1)
    \<and> params_blocks h1 (Suc (length (cells h))) = Some bs
    \<and> distinct bs
    \<and> matched h1 (Suc (length (cells h))) bs
    \<and> list_all (\<lambda>a. length (cells h) < a \<and> a \<le> length (cells h1)) bs
    \<and> get_countries_to_balance h1 (Suc (length (cells h))) = Inr cs"
proof -
  define n where "n = length (cells h)"
  define k where "k = length cs"
  from assms obtain c where c: "lookup h config = Some (LoadFlowParametersObj c)"
      "read_strings h (countries_to_balance c) (countries_to_balance_count c) = Inr cs"
    by (auto simp: get_countries_to_balance_def split: option.splits block.splits)
  define h1 where "h1 = grow h [Some (LoadFlowParametersObj zero_parameters)]"
  have n1: "length (cells h1) = Suc n" by (simp add: h1_def n_def)
  from c(1) have "live h config" by (simp add: live_def)
  then have c1: "lookup h1 config = Some (LoadFlowParametersObj c)"
    using c(1) by (simp add: lookup_grow_live h1_def)
  have r1: "read_strings h1 (countries_to_balance c) (countries_to_balance_count c) = Inr cs"
    unfolding h1_def using c(2) by (rule read_strings_preserved) (rule lookup_grow_live)
  define ps where "ps = fresh_addrs h1 k"
  define q where "q = Suc (Suc n + k)"
  define h2 where "h2 = grow h1 (string_blocks cs @ [Some (PtrArr ps)])"
  have cp: "copyVectorStringToCharPtrPtr h1 cs = (h2, q)"
    by (simp add: copyVectorStringToCharPtrPtr_grow h2_def ps_def q_def k_def n1)
  define s where "s = \<lparr>voltage_init_mode = voltage_init_mode c,
       transformer_voltage_control_on = transformer_voltage_control_on c,
       no_generator_reactive_limits = no_generator_reactive_limits c,
       phase_shifter_regulation_on = phase_shifter_regulation_on c,
       twt_split_shunt_admittance = twt_split_shunt_admittance c,
       simul_shunt = simul_shunt c,
       read_slack_bus = read_slack_bus c,
       write_slack_bus = write_slack_bus c,
       distributed_slack = distributed_slack c,
       balance_type = balance_type c,
       dc_use_transformer_ratio = dc_use_transformer_ratio c,
       countries_to_balance = q,
       countries_to_balance_count = int (length cs),
       connected_component_mode = connected_component_mode c\<rparr>"
  have s: "countries_to_balance s = q" "countries_to_balance_count s = int k"
    by (simp_all add: s_def k_def)
  define h3 where "h3 = put h2 (Suc n) (LoadFlowParametersObj s)"
  have "lookup h2 (Suc n) = lookup h1 (Suc n)"
    unfolding h2_def by (rule lookup_grow_old) (simp add: n1)
  then have "lookup h2 (Suc n) = Some (LoadFlowParametersObj zero_parameters)"
    by (simp add: lookup_grow_first h1_def n_def)
  then have l2: "live h2 (Suc n)" by (simp add: live_def)
  have "initLoadFlowParameters h config =
      and_then (store h2 (Suc n) (LoadFlowParametersObj s)) (\<lambda>h3. Inr (h3, Suc n))"
    using c1 r1 cp
    by (simp add: initLoadFlowParameters_def alloc_grow h1_def [symmetric] n_def [symmetric]
          s_def q_def)
  then have i: "initLoadFlowParameters h config = Inr (h3, Suc n)"
    by (simp add: store_live [OF l2] h3_def)
  have old: "lookup h3 a = lookup h a" if "a \<le> n" for a
  proof -
    from that have "lookup h3 a = lookup h2 a" by (simp add: lookup_put [OF l2] h3_def)
    also have "\<dots> = lookup h1 a" unfolding h2_def using that by (intro lookup_grow_old) (simp add: n1)
    also have "\<dots> = lookup h a" unfolding h1_def using that by (intro lookup_grow_old) (simp add: n_def)
    finally show ?thesis .
  qed
  have p: "lookup h3 (Suc n) = Some (LoadFlowParametersObj s)"
    by (simp add: lookup_put [OF l2] h3_def)
  have "length ps = k" by (simp add: ps_def)
  have "lookup h2 q = Some (PtrArr ps)"
    using lookup_grow_last [of h1 "string_blocks cs" "Some (PtrArr ps)"]
    by (simp add: h2_def q_def n1 k_def)
  then have q: "lookup h3 q = Some (PtrArr ps)"
    by (simp add: lookup_put [OF l2] h3_def q_def)
  have m2: "map (lookup h2) ps = string_blocks cs"
    using map_lookup_fresh [of h1 "string_blocks cs"] by (simp add: h2_def ps_def k_def)
  have above: "Suc n < a \<and> a \<le> Suc n + k" if "a \<in> set ps" for a
    using that by (simp add: ps_def set_fresh_addrs n1)
  have "map (lookup h3) ps = map (lookup h2) ps"
    by (rule map_lookup_cong) (auto simp: lookup_put [OF l2] h3_def dest: above)
  with m2 have m3: "map (lookup h3) ps = string_blocks cs" by simp
  define bs where "bs = ps @ [q, Suc n]"
  have pb: "params_blocks h3 (Suc n) = Some bs"
    by (simp add: params_blocks_def p q s bs_def \<open>length ps = k\<close>)
  have d: "distinct bs"
    by (auto simp: bs_def q_def ps_def dest: above [unfolded ps_def])
  have "allocated h3 NewArray a" if "a \<in> set ps" for a
    using m3 that by (rule string_blocks_allocated)
  moreover have "a \<noteq> Suc n" if "a \<in> set ps" for a
    using above [OF that] by simp
  moreover have "allocated h3 NewArray q" "allocated h3 New (Suc n)" "q \<noteq> Suc n"
    using p q by (simp_all add: allocated_def q_def)
  ultimately have lv: "matched h3 (Suc n) bs"
    by (auto simp: matched_def bs_def list_all_iff)
  have len: "length (cells h3) = Suc (Suc n + k)"
    by (simp add: h3_def h2_def n1 k_def)
  have rng: "list_all (\<lambda>a. n < a \<and> a \<le> length (cells h3)) bs"
    unfolding len by (auto simp: bs_def q_def list_all_iff dest: above)
  have rs: "read_c_strings h3 ps = Inr (map c_str cs)"
    using m3 by (rule read_c_strings_blocks)
  have "read_strings h3 q (int k) = Inr (map c_str cs)"
  proof (cases "cs = []")
    case True
    then show ?thesis by (simp add: read_strings_def k_def)
  next
    case False
    with q rs \<open>length ps = k\<close> show ?thesis by (simp add: read_strings_def k_def)
  qed
  with read_strings_c_str [OF c(2)] have g: "get_countries_to_balance h3 (Suc n) = Inr cs"
    by (simp add: get_countries_to_balance_def p s)
  have f: "freed h3 = freed h" by (simp add: h3_def h2_def h1_def)
  have le: "n \<le> length (cells h3)" by (simp add: len)
  from i old f le pb d lv rng g show ?thesis
    unfolding n_def by (intro exI [of _ h3] exI [of _ bs]) blast
qed

lemma set_countries_to_balance_frame:
  assumes pb: "params_blocks h p = Some bs" and d: "distinct bs" and lv: "matched h p bs"
  shows "\<exists>h'. set_countries_to_balance h p countries = Inr h'
     \<and> (\<forall>a. a \<le> length (cells h) \<longrightarrow> a \<notin> set bs \<longrightarrow> lookup h' a = lookup h a)
     \<and> get_countries_to_balance h' p = Inr (map c_str countries)
     \<and> length (cells h) \<le> length (cells h')"
proof -
  from pb obtain s ps where s: "lookup h p = Some (LoadFlowParametersObj s)"
      "lookup h (countries_to_balance s) = Some (PtrArr ps)"
      "countries_to_balance_count s = int (length ps)" "bs = ps @ [countries_to_balance s, p]"
    by (auto simp: params_blocks_def split: option.splits block.splits if_splits)
  define r where "r = countries_to_balance s"
  define xs where "xs = ps @ [r]"
  define k where "k = length countries"
  from s(4) d have x13: "distinct xs" "p \<notin> set xs"
    by (auto simp: xs_def r_def)
  have "allocated h NewArray a" if "a \<in> set xs" for a
  proof -
    from that x13(2) have "a \<noteq> p" by auto
    moreover from that s(4) have "a \<in> set bs" by (auto simp: xs_def r_def)
    ultimately show ?thesis using lv by (auto simp: matched_def list_all_iff)
  qed
  then have x2: "list_all (allocated h NewArray) xs" by (simp add: list_all_iff)
  from s(1) have x4: "live h p" by (simp add: live_def)
  note x = x13(1) x2 x13(2) x4
  have z: "0 \<notin> set xs" using x(2) by (rule list_all_allocated_nonzero)
  define h1 where "h1 = dispose h xs"
  have del: "deleteCharPtrPtr h r (countries_to_balance_count s) = Inr h1"
    unfolding h1_def xs_def using s(2,3) x(1,2)
    by (intro deleteCharPtrPtr_dispose) (simp_all add: r_def xs_def)
  have n1: "length (cells h1) = length (cells h)" by (simp add: h1_def)
  define qs where "qs = fresh_addrs h1 k"
  define q where "q = Suc (length (cells h) + k)"
  define h2 where "h2 = grow h1 (string_blocks countries @ [Some (PtrArr qs)])"
  have cp: "copyVectorStringToCharPtrPtr h1 countries = (h2, q)"
    by (simp add: copyVectorStringToCharPtrPtr_grow h2_def qs_def q_def k_def n1)
  define s' where "s' = s\<lparr>countries_to_balance := q, countries_to_balance_count := int k\<rparr>"
  define h3 where "h3 = put h2 p (LoadFlowParametersObj s')"
  have pn: "p \<le> length (cells h)" using x(4) by (rule live_bound)
  have l1: "live h1 p" using live_dispose [OF z, of h p] x(3,4) by (simp add: h1_def)
  have l2: "live h2 p"
    unfolding h2_def using l1 lookup_grow_live [OF l1] by (rule live_preserved)
  have st: "set_countries_to_balance h p countries = Inr h3"
    using s(1) del cp
    by (simp add: set_countries_to_balance_def r_def [symmetric] store_live [OF l2]
          h3_def s'_def k_def)
  have frame: "lookup h3 a = lookup h a" if "a \<le> length (cells h)" "a \<notin> set bs" for a
  proof -
    from that(2) s(4) have a: "a \<noteq> p" "a \<notin> set xs" by (auto simp: xs_def r_def)
    then have "lookup h3 a = lookup h2 a" by (simp add: lookup_put [OF l2] h3_def)
    also have "\<dots> = lookup h1 a" unfolding h2_def using that(1) by (intro lookup_grow_old) (simp add: n1)
    also have "\<dots> = lookup h a" using a z by (simp add: h1_def lookup_dispose)
    finally show ?thesis .
  qed
  have p3: "lookup h3 p = Some (LoadFlowParametersObj s')"
    by (simp add: lookup_put [OF l2] h3_def)
  have qp: "q \<noteq> p" using pn by (simp add: q_def)
  have "lookup h2 q = Some (PtrArr qs)"
    using lookup_grow_last [of h1 "string_blocks countries" "Some (PtrArr qs)"]
    by (simp add: h2_def q_def n1 k_def)
  with qp have q3: "lookup h3 q = Some (PtrArr qs)"
    by (simp add: lookup_put [OF l2] h3_def)
  have m2: "map (lookup h2) qs = string_blocks countries"
    using map_lookup_fresh [of h1 "string_blocks countries"] by (simp add: h2_def qs_def k_def)
  have above: "length (cells h) < a" if "a \<in> set qs" for a
    using that by (simp add: qs_def set_fresh_addrs n1)
  have "map (lookup h3) qs = map (lookup h2) qs"
  proof (rule map_lookup_cong)
    fix a assume "a \<in> set qs"
    from above [OF this] pn have "a \<noteq> p" by simp
    then show "lookup h3 a = lookup h2 a" by (simp add: lookup_put [OF l2] h3_def)
  qed
  with m2 have "map (lookup h3) qs = string_blocks countries" by simp
  then have rs: "read_c_strings h3 qs = Inr (map c_str countries)"
    by (rule read_c_strings_blocks)
  have lq: "length qs = k" by (simp add: qs_def)
  have "read_strings h3 q (int k) = Inr (map c_str countries)"
  proof (cases "countries = []")
    case True
    then show ?thesis by (simp add: read_strings_def k_def)
  next
    case False
    with q3 rs lq show ?thesis by (simp add: read_strings_def k_def)
  qed
  then have g: "get_countries_to_balance h3 p = Inr (map c_str countries)"
    by (simp add: get_countries_to_balance_def p3 s'_def)
  have "length (cells h) \<le> length (cells h3)"
    by (simp add: h3_def h2_def n1)
  with st frame g show ?thesis
    by (intro exI [of _ h3]) blast
qed

lemma cells_prefix:
  assumes "length (cells h) \<le> length (cells h2)"
    and "\<And>a. a \<le> length (cells h) \<Longrightarrow> lookup h2 a = lookup h a"
  shows "take (length (cells h)) (cells h2) = cells h"
proof (rule nth_equalityI)
  show "length (take (length (cells h)) (cells h2)) = length (cells h)"
    using assms(1) by simp
next
  fix i assume "i < length (take (length (cells h)) (cells h2))"
  with assms(1) have i: "i < length (cells h)" by simp
  with assms(2) [of "Suc i"] assms(1) have "cells h2 ! i = cells h ! i"
    by (simp add: lookup_def)
  with i show "take (length (cells h)) (cells h2) ! i = cells h ! i" by simp
qed

text \<open>
  C6. Let \<open>config\<close> be a default configuration whose country list is readable, with
  contents \<open>template\<close>. Two calls of \<open>initLoadFlowParameters\<close> in sequence return two
  structures whose country lists both read \<open>template\<close>. Setting the list of the first
  through the setter then succeeds (it releases the previous strings of the first
  structure, which therefore are storage of its own) and the first reads the new
  list; the second still reads \<open>template\<close>, the default configuration still reads
  \<open>template\<close>, and every block that existed before the first call is as it was.
\<close>

theorem countries_to_balance_isolated:
  assumes "get_countries_to_balance h config = Inr template"
  shows "\<exists>h1 p1 h2 p2 h3.
       initLoadFlowParameters h config = Inr (h1, p1)
     \<and> initLoadFlowParameters h1 config = Inr (h2, p2)
     \<and> get_countries_to_balance h2 p1 = Inr template
     \<and> get_countries_to_balance h2 p2 = Inr template
     \<and> set_countries_to_balance h2 p1 countries = Inr h3
     \<and> get_countries_to_balance h3 p1 = Inr (map c_str countries)
     \<and> get_countries_to_balance h3 p2 = Inr template
     \<and> get_countries_to_balance h3 config = Inr template
     \<and> take (length (cells h)) (cells h3) = cells h"
proof -
  define n0 where "n0 = length (cells h)"
  from initLoadFlowParameters_copy [OF assms] obtain h1 bs1
    where 1: "initLoadFlowParameters h config = Inr (h1, Suc n0)"
      "\<And>a. a \<le> n0 \<Longrightarrow> lookup h1 a = lookup h a"
      "n0 \<le> length (cells h1)"
      "params_blocks h1 (Suc n0) = Some bs1" "distinct bs1" "matched h1 (Suc n0) bs1"
      "list_all (\<lambda>a. n0 < a \<and> a \<le> length (cells h1)) bs1"
      "get_countries_to_balance h1 (Suc n0) = Inr template"
    unfolding n0_def by blast
  define n1 where "n1 = length (cells h1)"
  have g1: "get_countries_to_balance h1 config = Inr template"
    using assms
  proof (rule get_countries_to_balance_preserved)
    fix a assume "live h a"
    then have "a \<le> n0" unfolding n0_def by (rule live_bound)
    then show "lookup h1 a = lookup h a" by (rule 1(2))
  qed
  from initLoadFlowParameters_copy [OF g1] obtain h2 bs2
    where 2: "initLoadFlowParameters h1 config = Inr (h2, Suc n1)"
      "\<And>a. a \<le> n1 \<Longrightarrow> lookup h2 a = lookup h1 a"
      "n1 \<le> length (cells h2)"
      "params_blocks h2 (Suc n1) = Some bs2" "distinct bs2" "matched h2 (Suc n1) bs2"
      "list_all (\<lambda>a. n1 < a \<and> a \<le> length (cells h2)) bs2"
      "get_countries_to_balance h2 (Suc n1) = Inr template"
    unfolding n1_def by blast
  have b1: "n0 < a \<and> a \<le> n1" if "a \<in> set bs1" for a
    using 1(7) that by (simp add: list_all_iff n1_def)
  have b2: "n1 < a \<and> a \<le> length (cells h2)" if "a \<in> set bs2" for a
    using 2(7) that by (simp add: list_all_iff)
  have same1: "lookup h2 a = lookup h1 a" if "a \<in> set bs1" for a
    using b1 [OF that] by (intro 2(2)) simp
  from params_blocks_cong [OF 1(4) same1]
  have pb1: "params_blocks h2 (Suc n0) = Some bs1"
    and g21: "get_countries_to_balance h2 (Suc n0) = get_countries_to_balance h1 (Suc n0)"
    by simp_all
  have lv1: "matched h2 (Suc n0) bs1"
    using 1(6) same1 by (simp add: matched_def list_all_iff allocated_def)
  from set_countries_to_balance_frame [OF pb1 1(5) lv1, of countries] obtain h3
    where 3: "set_countries_to_balance h2 (Suc n0) countries = Inr h3"
      "\<And>a. a \<le> length (cells h2) \<Longrightarrow> a \<notin> set bs1 \<Longrightarrow> lookup h3 a = lookup h2 a"
      "get_countries_to_balance h3 (Suc n0) = Inr (map c_str countries)"
      "length (cells h2) \<le> length (cells h3)"
    by blast
  have same2: "lookup h3 a = lookup h2 a" if "a \<in> set bs2" for a
  proof (rule 3(2))
    from b2 [OF that] show "a \<le> length (cells h2)" by simp
    from b2 [OF that] b1 [of a] show "a \<notin> set bs1" by auto
  qed
  from params_blocks_cong [OF 2(4) same2]
  have g32: "get_countries_to_balance h3 (Suc n1) = get_countries_to_balance h2 (Suc n1)"
    by simp
  have old: "lookup h3 a = lookup h a" if "a \<le> n0" for a
  proof -
    from that 1(3) 2(3) have "a \<le> length (cells h2)" by (simp add: n1_def)
    moreover from that b1 [of a] have "a \<notin> set bs1" by auto
    ultimately have "lookup h3 a = lookup h2 a" by (rule 3(2))
    also from that 1(3) have "\<dots> = lookup h1 a" by (intro 2(2)) (simp add: n1_def)
    also from that have "\<dots> = lookup h a" by (rule 1(2))
    finally show ?thesis .
  qed
  have g3c: "get_countries_to_balance h3 config = Inr template"
    using assms
  proof (rule get_countries_to_balance_preserved)
    fix a assume "live h a"
    then have "a \<le> n0" unfolding n0_def by (rule live_bound)
    then show "lookup h3 a = lookup h a" by (rule old)
  qed
  have "length (cells h) \<le> length (cells h3)"
    using 1(3) 2(3) 3(4) by (simp add: n0_def n1_def)
  then have pre: "take (length (cells h)) (cells h3) = cells h"
    by (rule cells_prefix) (simp add: old n0_def)
  from 1(1) 2(1) 1(8) g21 2(8) 3(1) 3(3) g32 g3c pre show ?thesis
    unfolding n0_def
    by (intro exI [of _ h1] exI [of _ "Suc (length (cells h))"] exI [of _ h2]
          exI [of _ "Suc n1"] exI [of _ h3]) simp
qed

theorem countries_to_balance_isolated_witness:
  "\<exists>h1 p1 h2 p2 h3.
       initLoadFlowParameters configured 4 = Inr (h1, p1)
     \<and> initLoadFlowParameters h1 4 = Inr (h2, p2)
     \<and> get_countries_to_balance h2 p1 = Inr [''FR'', ''DE'']
     \<and> get_countries_to_balance h2 p2 = Inr [''FR'', ''DE'']
     \<and> set_countries_to_balance h2 p1 [''BE''] = Inr h3
     \<and> get_countries_to_balance h3 p1 = Inr [''BE'']
     \<and> get_countries_to_balance h3 p2 = Inr [''FR'', ''DE'']
     \<and> get_countries_to_balance h3 4 = Inr [''FR'', ''DE'']
     \<and> take 4 (cells h3) = cells configured"
proof -
  have "get_countries_to_balance configured 4 = Inr [''FR'', ''DE'']"
    by (simp add: get_countries_to_balance_def read_strings_def read_c_string_def lookup_def
          configured_def default_parameters_def c_str_def NUL_def)
  moreover have "length (cells configured) = 4" by (simp add: configured_def)
  moreover have "map c_str [''BE''] = [''BE'']" by (simp add: c_str_def NUL_def)
  ultimately show ?thesis
    using countries_to_balance_isolated [of configured 4 "[''FR'', ''DE'']" "[''BE'']"]
    by simp
qed

end
